theory Spec2Isabelle
  imports Main
begin

section \<open>repo2prompt: the selection and bounded-streaming pipeline of src/index.ts\<close>

text \<open>
  The development follows \<^verbatim>\<open>src/index.ts\<close> function by function. JavaScript strings and
  Node buffers are both modelled as \<^typ>\<open>string\<close>: one \<^typ>\<open>char\<close> per code unit of a
  string (code units above 255 are outside the model) and one \<^typ>\<open>char\<close> per byte of a
  buffer. Console output (warnings and debug logs) is not modelled; every \<^verbatim>\<open>try/catch\<close>
  of the source is a branch of the model.
\<close>

subsection \<open>Strings and numbers\<close>

definition newline :: char where
  "newline = CHR 0x0A"

definition digit_char :: "nat \<Rightarrow> char" where
  "digit_char d = ''0123456789'' ! d"

text \<open>The decimal text a template literal produces for a non-negative integer.\<close>

fun number_toString :: "nat \<Rightarrow> string" where
  "number_toString n =
     (if n < 10 then [digit_char n]
      else number_toString (n div 10) @ [digit_char (n mod 10)])"

declare number_toString.simps [simp del]

text \<open>
  \<^verbatim>\<open>String.prototype.toLowerCase\<close>, on the code units of the model: the letters A to Z
  are mapped to a to z. (No code unit outside ASCII lower-cases to one of the characters of
  \<^verbatim>\<open>.bin\<close>, the only string the result is compared with.)
\<close>

definition toLowerCase :: "string \<Rightarrow> string" where
  "toLowerCase s =
     map (\<lambda>c. if 65 \<le> (of_char c :: nat) \<and> (of_char c :: nat) \<le> 90
              then char_of (of_char c + 32 :: nat) else c) s"

text \<open>\<^verbatim>\<open>s.startsWith(c)\<close> for a one-character prefix.\<close>

definition startsWith :: "string \<Rightarrow> char \<Rightarrow> bool" where
  "startsWith s c = (case s of [] \<Rightarrow> False | x # _ \<Rightarrow> x = c)"

subsection \<open>Text read as UTF-8\<close>

text \<open>
  The read stream is opened with \<^verbatim>\<open>{ encoding: 'utf-8' }\<close>, so it decodes the bytes of the
  file to a string, and the \<^verbatim>\<open>'data'\<close> handler encodes each chunk again with
  \<^verbatim>\<open>Buffer.from(chunk, 'utf-8')\<close>. \<open>utf8_reencode\<close> is the composition on the bytes: a
  well-formed UTF-8 sequence stays as it is, and every maximal ill-formed part (a byte that
  cannot start a sequence, or a sequence cut short) becomes the three bytes \<^verbatim>\<open>EF BF BD\<close> of
  the replacement character U+FFFD.

  \<open>utf8_lead b\<close> gives, for a lead byte, the number of continuation bytes that follow and
  the range of the first one (no other byte above \<^verbatim>\<open>7F\<close> can start a sequence);
  \<open>utf8_tail n lo hi bs\<close> counts how many of the \<open>n\<close> expected continuation bytes stand at
  the front of \<open>bs\<close>.
\<close>

definition utf8_replacement :: string where
  "utf8_replacement = [CHR 0xEF, CHR 0xBF, CHR 0xBD]"

definition utf8_lead :: "char \<Rightarrow> (nat \<times> int \<times> int) option" where
  "utf8_lead b =
     (let n = (of_char b :: int)
      in if 0xC2 \<le> n \<and> n \<le> 0xDF then Some (1, 0x80, 0xBF)
         else if n = 0xE0 then Some (2, 0xA0, 0xBF)
         else if n = 0xED then Some (2, 0x80, 0x9F)
         else if 0xE1 \<le> n \<and> n \<le> 0xEF then Some (2, 0x80, 0xBF)
         else if n = 0xF0 then Some (3, 0x90, 0xBF)
         else if 0xF1 \<le> n \<and> n \<le> 0xF3 then Some (3, 0x80, 0xBF)
         else if n = 0xF4 then Some (3, 0x80, 0x8F)
         else None)"

fun utf8_tail :: "nat \<Rightarrow> int \<Rightarrow> int \<Rightarrow> string \<Rightarrow> nat" where
  "utf8_tail 0 lo hi bs = 0"
| "utf8_tail (Suc n) lo hi [] = 0"
| "utf8_tail (Suc n) lo hi (c # cs) =
     (if lo \<le> (of_char c :: int) \<and> (of_char c :: int) \<le> hi
      then Suc (utf8_tail n 0x80 0xBF cs) else 0)"

text \<open>
  After a byte \<open>b\<close> that is not ASCII: how many of the bytes \<open>bs\<close> that follow belong to the
  same part, and whether the part is a well-formed sequence.
\<close>

definition utf8_taken :: "char \<Rightarrow> string \<Rightarrow> nat" where
  "utf8_taken b bs =
     (case utf8_lead b of None \<Rightarrow> 0 | Some (n, lo, hi) \<Rightarrow> utf8_tail n lo hi bs)"

definition utf8_wellformed :: "char \<Rightarrow> string \<Rightarrow> bool" where
  "utf8_wellformed b bs =
     (case utf8_lead b of None \<Rightarrow> False | Some (n, lo, hi) \<Rightarrow> utf8_tail n lo hi bs = n)"

function utf8_reencode :: "string \<Rightarrow> string" where
  "utf8_reencode [] = []"
| "utf8_reencode (b # bs) =
     (if (of_char b :: int) < 0x80 then b # utf8_reencode bs
      else if utf8_wellformed b bs
      then b # take (utf8_taken b bs) bs @ utf8_reencode (drop (utf8_taken b bs) bs)
      else utf8_replacement @ utf8_reencode (drop (utf8_taken b bs) bs))"
  by pat_completeness auto
termination
  by (relation "measure length") auto

text \<open>
  The chunks of a text: \<open>chop cuts bs\<close> cuts \<open>bs\<close> into pieces of the sizes \<open>cuts\<close>, the rest
  being the last piece; no piece is empty.
\<close>

fun chop :: "nat list \<Rightarrow> string \<Rightarrow> string list" where
  "chop [] bs = (if bs = [] then [] else [bs])"
| "chop (n # ns) bs =
     (if bs = [] then []
      else if n = 0 then chop ns bs
      else take n bs # chop ns (drop n bs))"

subsection \<open>The runtime: file system, path library, glob library\<close>

text \<open>What \<^verbatim>\<open>fsp.stat\<close> returns: the size and the ISO-8601 text of the modification time.\<close>

record stats =
  st_size :: nat
  st_mtime :: string

datatype stream_finish = StreamEnd | StreamError

text \<open>
  What the file system answers for one absolute path:
  \<^item> \<open>stat_result\<close>: the result of \<^verbatim>\<open>fsp.stat\<close>, \<open>None\<close> when it rejects;
  \<^item> \<open>read_result\<close>: the content of the file as \<^verbatim>\<open>fsp.readFile\<close>, or \<^verbatim>\<open>fsp.open\<close> and
    \<^verbatim>\<open>fd.read\<close>, see it; \<open>None\<close> when opening, reading or closing rejects;
  \<^item> \<open>stream_cuts\<close>: where \<^verbatim>\<open>fs.createReadStream\<close> cuts the text of the file into its
    \<^verbatim>\<open>'data'\<close> events: the sizes of the chunks, as encoded again by the handler;
  \<^item> \<open>stream_finish\<close>: the event that follows them, \<^verbatim>\<open>'end'\<close> or \<^verbatim>\<open>'error'\<close> (\<^verbatim>\<open>'error'\<close> for
    a file that cannot be opened).
\<close>

record fnode =
  stat_result :: "stats option"
  read_result :: "string option"
  stream_cuts :: "nat list"
  stream_finish :: stream_finish

text \<open>
  The \<^verbatim>\<open>'data'\<close> events of the read stream, in order, each as the buffer the handler makes
  of it. The stream decodes the bytes of the file as UTF-8, carrying a sequence that a read
  boundary splits over to the next chunk, so the chunks together are the bytes of the file
  decoded and encoded again; where the stream cuts them is the runtime's choice. A file that
  cannot be opened delivers nothing.
\<close>

definition stream_chunks :: "fnode \<Rightarrow> string list" where
  "stream_chunks f =
     (case read_result f of
        None \<Rightarrow> []
      | Some bytes \<Rightarrow> chop (stream_cuts f) (utf8_reencode bytes))"

text \<open>
  The libraries the code calls are parameters of the model: \<^verbatim>\<open>path.extname\<close>,
  \<^verbatim>\<open>path.join\<close>, \<^verbatim>\<open>os.platform() === 'win32'\<close>, the file system, and the glob library:
  \<open>minimatch pat f\<close> says whether the relative path \<open>f\<close> matches the pattern,
  \<open>glob_rejects pat\<close> whether the library throws on the pattern, and \<open>tree\<close> lists the
  regular files under the repository root (relative paths, in the library's traversal
  order).
\<close>

record runtime =
  path_extname :: "string \<Rightarrow> string"
  path_join :: "string \<Rightarrow> string \<Rightarrow> string"
  os_win32 :: bool
  fs :: "string \<Rightarrow> fnode"
  minimatch :: "string \<Rightarrow> string \<Rightarrow> bool"
  glob_rejects :: "string \<Rightarrow> bool"
  tree :: "string list"

subsection \<open>The output sink\<close>

text \<open>
  The sink is the list of the \<^verbatim>\<open>outputStream.write\<close> calls made so far, one constructor
  per kind of call; \<open>render\<close> gives the bytes each call writes.
\<close>

datatype wr =
    Text string
  | SectionHeader nat
  | PathLine string
  | BinaryMeta nat string
  | Content string
  | TruncationMarker
  | Newline
  | EndMarker

definition truncation_marker :: string where
  "truncation_marker = newline # ''[TRUNCATED]'' @ [newline]"

fun render :: "wr \<Rightarrow> string" where
  "render (Text s) = s"
| "render (SectionHeader n) = ''----['' @ number_toString n @ '']'' @ [newline]"
| "render (PathLine p) = p @ [newline]"
| "render (BinaryMeta sz mt) =
     ''[BINARY FILE] Size: '' @ number_toString sz @ '' bytes, Modified: '' @ mt @ [newline]"
| "render (Content bs) = bs"
| "render TruncationMarker = truncation_marker"
| "render Newline = [newline]"
| "render EndMarker = ''--END--'' @ [newline]"

definition rendered :: "wr list \<Rightarrow> string" where
  "rendered ws = concat (map render ws)"

subsection \<open>buildTableOfContents\<close>

text \<open>The \<^verbatim>\<open>forEach\<close> callback appends one line per entry; \<open>index\<close> counts from 0.\<close>

fun toc_forEach :: "string list \<Rightarrow> nat \<Rightarrow> string \<Rightarrow> string" where
  "toc_forEach [] index toc = toc"
| "toc_forEach (filePath # rest) index toc =
     toc_forEach rest (index + 1)
       (toc @ number_toString (index + 1) @ ''. '' @ filePath @ [newline])"

definition buildTableOfContents :: "string list \<Rightarrow> string" where
  "buildTableOfContents fileList =
     (let toc = ''Table of Contents:'' @ [newline];
          toc = toc_forEach fileList 0 toc
      in toc @ [newline])"

subsection \<open>isBinaryFile\<close>

text \<open>
  \<^verbatim>\<open>fd.read(buffer, 0, 512, 0)\<close> on a zero-filled buffer of 512 bytes: the number of
  bytes read and the buffer afterwards.
\<close>

definition fd_read :: "string \<Rightarrow> nat \<times> string" where
  "fd_read bytes =
     (let got = take 512 bytes
      in (length got, got @ replicate (512 - length got) (CHR 0x00)))"

text \<open>The loop \<^verbatim>\<open>for (let i = 0; i < bytesRead; i++)\<close> over the buffer.\<close>

function has_null_from :: "string \<Rightarrow> nat \<Rightarrow> nat \<Rightarrow> bool" where
  "has_null_from buffer bytesRead i =
     (if i < bytesRead
      then (if buffer ! i = CHR 0x00 then True else has_null_from buffer bytesRead (i + 1))
      else False)"
  by pat_completeness auto
termination
  by (relation "measure (\<lambda>(buffer, bytesRead, i). bytesRead - i)") auto

declare has_null_from.simps [simp del]

definition isBinaryFile :: "runtime \<Rightarrow> string \<Rightarrow> bool" where
  "isBinaryFile rt filePath =
     (if toLowerCase (path_extname rt filePath) = ''.bin'' then True
      else (case read_result (fs rt filePath) of
              None \<Rightarrow> False
            | Some bytes \<Rightarrow>
                (let (bytesRead, buffer) = fd_read bytes
                 in has_null_from buffer bytesRead 0)))"

subsection \<open>streamFileWithLimit\<close>

text \<open>
  \<^verbatim>\<open>buf.slice(start, end)\<close> of a Node buffer: a negative index counts from the end of the
  buffer, and both indices are clamped to the buffer.
\<close>

definition buffer_slice :: "string \<Rightarrow> int \<Rightarrow> int \<Rightarrow> string" where
  "buffer_slice buf start finish =
     (let len = int (length buf);
          s = (if start < 0 then max 0 (len + start) else min start len);
          e = (if finish < 0 then max 0 (len + finish) else min finish len)
      in if e \<le> s then [] else take (nat (e - s)) (drop (nat s) buf))"

record stream_state =
  bytesWritten :: int
  truncated :: bool
  sink :: "wr list"

text \<open>The \<^verbatim>\<open>'data'\<close> handler.\<close>

definition on_data :: "int \<Rightarrow> string \<Rightarrow> stream_state \<Rightarrow> stream_state" where
  "on_data maxSize chunkBuffer s =
     (if truncated s then s
      else if bytesWritten s + int (length chunkBuffer) > maxSize then
        (let remaining = maxSize - bytesWritten s
         in s\<lparr>sink := sink s @ [Content (buffer_slice chunkBuffer 0 remaining), TruncationMarker],
              truncated := True\<rparr>)
      else s\<lparr>sink := sink s @ [Content chunkBuffer],
             bytesWritten := bytesWritten s + int (length chunkBuffer)\<rparr>)"

datatype settled = Resolved | Rejected

text \<open>
  The promise resolves at the truncation, or at \<^verbatim>\<open>'end'\<close> when nothing was truncated; it
  rejects at \<^verbatim>\<open>'error'\<close>. After the truncation the handler ignores every further chunk.
\<close>

definition streamFileWithLimit ::
  "runtime \<Rightarrow> string \<Rightarrow> wr list \<Rightarrow> int \<Rightarrow> wr list \<times> settled" where
  "streamFileWithLimit rt absolutePath outputStream maxSize =
     (let src = fs rt absolutePath;
          s = fold (on_data maxSize) (stream_chunks src)
                \<lparr>bytesWritten = 0, truncated = False, sink = outputStream\<rparr>
      in (sink s,
          if truncated s then Resolved
          else (case stream_finish src of StreamEnd \<Rightarrow> Resolved | StreamError \<Rightarrow> Rejected)))"

subsection \<open>writeFilesWithIndex\<close>

text \<open>The progress bar, as the calls it has received.\<close>

record progress =
  increments :: nat
  stops :: nat

definition bar_increment :: "progress option \<Rightarrow> progress option" where
  "bar_increment bar = map_option (\<lambda>b. b\<lparr>increments := increments b + 1\<rparr>) bar"

definition bar_stop :: "progress option \<Rightarrow> progress option" where
  "bar_stop bar = map_option (\<lambda>b. b\<lparr>stops := stops b + 1\<rparr>) bar"

text \<open>
  One iteration of the loop. The \<^verbatim>\<open>catch\<close> block ends in \<^verbatim>\<open>continue\<close>, so a rejected
  \<^verbatim>\<open>fsp.stat\<close> or a rejected stream leaves the iteration before \<^verbatim>\<open>bar.increment()\<close>.
\<close>

definition write_entry ::
  "runtime \<Rightarrow> string \<Rightarrow> int \<Rightarrow> nat \<Rightarrow> string \<Rightarrow> wr list \<times> progress option
     \<Rightarrow> wr list \<times> progress option" where
  "write_entry rt repoRoot maxSize idx relativePath st =
     (let (outputStream, bar) = st;
          absolutePath = path_join rt repoRoot relativePath
      in case stat_result (fs rt absolutePath) of
           None \<Rightarrow> (outputStream, bar)
         | Some stats \<Rightarrow>
             (let isBinary = isBinaryFile rt absolutePath;
                  out1 = outputStream @ [SectionHeader (idx + 1), PathLine relativePath]
              in if isBinary
                 then (out1 @ [BinaryMeta (st_size stats) (st_mtime stats)], bar_increment bar)
                 else (case streamFileWithLimit rt absolutePath out1 maxSize of
                         (out2, Rejected) \<Rightarrow> (out2, bar)
                       | (out2, Resolved) \<Rightarrow> (out2 @ [Newline], bar_increment bar))))"

text \<open>The loop \<^verbatim>\<open>for (let idx = 0; idx < nonIgnoredFiles.length; idx++)\<close>.\<close>

function write_loop ::
  "runtime \<Rightarrow> string \<Rightarrow> string list \<Rightarrow> int \<Rightarrow> nat \<Rightarrow> wr list \<times> progress option
     \<Rightarrow> wr list \<times> progress option" where
  "write_loop rt repoRoot nonIgnoredFiles maxSize idx st =
     (if idx < length nonIgnoredFiles
      then write_loop rt repoRoot nonIgnoredFiles maxSize (idx + 1)
             (write_entry rt repoRoot maxSize idx (nonIgnoredFiles ! idx) st)
      else st)"
  by pat_completeness auto
termination
  by (relation "measure (\<lambda>(rt, repoRoot, nonIgnoredFiles, maxSize, idx, st).
        length nonIgnoredFiles - idx)") auto

declare write_loop.simps [simp del]

definition writeFilesWithIndex ::
  "runtime \<Rightarrow> string \<Rightarrow> string list \<Rightarrow> wr list \<Rightarrow> int \<Rightarrow> progress option
     \<Rightarrow> wr list \<times> progress option" where
  "writeFilesWithIndex rt repoRoot nonIgnoredFiles outputStream maxSize bar =
     (let (out, bar') = write_loop rt repoRoot nonIgnoredFiles maxSize 0 (outputStream, bar)
      in (out, bar_stop bar'))"

text \<open>What a written sink shows: the numbers of its section headers and its path lines.\<close>

definition section_numbers :: "wr list \<Rightarrow> nat list" where
  "section_numbers ws = concat (map (\<lambda>w. case w of SectionHeader n \<Rightarrow> [n] | _ \<Rightarrow> []) ws)"

definition path_lines :: "wr list \<Rightarrow> string list" where
  "path_lines ws = concat (map (\<lambda>w. case w of PathLine p \<Rightarrow> [p] | _ \<Rightarrow> []) ws)"

subsection \<open>getIgnoreList\<close>

text \<open>
  The white space \<^verbatim>\<open>String.prototype.trim\<close> and \<^verbatim>\<open>parseInt\<close> skip, among the code units
  of the model: tab, line feed, vertical tab, form feed, carriage return, space and the
  no-break space.
\<close>

definition is_space :: "char \<Rightarrow> bool" where
  "is_space c = ((of_char c :: nat) \<in> {9, 10, 11, 12, 13, 32, 160})"

definition trim :: "string \<Rightarrow> string" where
  "trim s = rev (dropWhile is_space (rev (dropWhile is_space s)))"

text \<open>
  \<^verbatim>\<open>raw.split(/\r?\n/)\<close>: a line feed ends a piece, and a carriage return right before
  it belongs to the separator.
\<close>

fun split_lines :: "string \<Rightarrow> string list" where
  "split_lines [] = [[]]"
| "split_lines (c # cs) =
     (if c = CHR 0x0A then [] # split_lines cs
      else if c = CHR 0x0D \<and> cs \<noteq> [] \<and> hd cs = CHR 0x0A then [] # split_lines (tl cs)
      else (case split_lines cs of [] \<Rightarrow> [[c]] | l # ls \<Rightarrow> (c # l) # ls))"

text \<open>\<^verbatim>\<open>pattern.replace(/\//g, '\\')\<close>, applied on Windows only.\<close>

definition normalize_separators :: "runtime \<Rightarrow> string \<Rightarrow> string" where
  "normalize_separators rt pattern =
     (if os_win32 rt then map (\<lambda>c. if c = CHR ''/'' then CHR 0x5C else c) pattern
      else pattern)"

fun ignore_loop :: "runtime \<Rightarrow> string list \<Rightarrow> string list \<Rightarrow> string list" where
  "ignore_loop rt [] patterns = patterns"
| "ignore_loop rt (line # rest) patterns =
     (let trimmed = trim line
      in if trimmed = [] \<or> startsWith trimmed (CHR ''#'') then ignore_loop rt rest patterns
         else ignore_loop rt rest (patterns @ [normalize_separators rt trimmed]))"

text \<open>\<open>None\<close> when \<^verbatim>\<open>fsp.readFile\<close> rejects: the error goes to the caller.\<close>

definition getIgnoreList :: "runtime \<Rightarrow> string \<Rightarrow> string list option" where
  "getIgnoreList rt ignoreFilePath =
     (case read_result (fs rt ignoreFilePath) of
        None \<Rightarrow> None
      | Some raw \<Rightarrow> Some (ignore_loop rt (split_lines raw) []))"

subsection \<open>main: the size ceiling\<close>

text \<open>
  \<^verbatim>\<open>parseInt(s, 10)\<close>: leading white space, an optional sign, then the longest run of
  decimal digits; \<open>None\<close> stands for \<^verbatim>\<open>NaN\<close>. (Exact for results below \<open>2 ^ 53\<close>.)
\<close>

definition is_digit :: "char \<Rightarrow> bool" where
  "is_digit c = (48 \<le> (of_char c :: nat) \<and> (of_char c :: nat) \<le> 57)"

definition digits_value :: "string \<Rightarrow> int" where
  "digits_value ds = fold (\<lambda>c n. 10 * n + ((of_char c :: int) - 48)) ds 0"

definition parseInt10 :: "string \<Rightarrow> int option" where
  "parseInt10 s =
     (let t = dropWhile is_space s;
          negative = startsWith t (CHR ''-'');
          u = (if startsWith t (CHR ''-'') \<or> startsWith t (CHR ''+'') then tl t else t);
          ds = takeWhile is_digit u
      in if ds = [] then None
         else Some (if negative then - digits_value ds else digits_value ds))"

text \<open>
  \<^verbatim>\<open>parseInt(opts.maxSize || '1048576', 10) || 1048576\<close>: the empty string, \<^verbatim>\<open>NaN\<close> and
  \<open>0\<close> are falsy.
\<close>

definition main_maxSize :: "string option \<Rightarrow> int" where
  "main_maxSize opts_maxSize =
     (let arg = (case opts_maxSize of
                   None \<Rightarrow> ''1048576''
                 | Some s \<Rightarrow> if s = [] then ''1048576'' else s)
      in case parseInt10 arg of
           None \<Rightarrow> 1048576
         | Some n \<Rightarrow> if n = 0 then 1048576 else n)"

subsection \<open>main: resolving the file set\<close>

text \<open>
  \<^verbatim>\<open>glob(pattern, {cwd: repoRoot, nodir: true, dot: true, follow: false, ignore})\<close>: the
  files of the tree that match the pattern and none of the \<open>ignore\<close> patterns; \<open>None\<close>
  when the library throws.
\<close>

definition glob :: "runtime \<Rightarrow> string \<Rightarrow> string list \<Rightarrow> string list option" where
  "glob rt pattern ignore =
     (if glob_rejects rt pattern \<or> list_ex (glob_rejects rt) ignore then None
      else Some (filter (\<lambda>f. minimatch rt pattern f \<and> \<not> list_ex (\<lambda>g. minimatch rt g f) ignore)
                   (tree rt)))"

text \<open>A JavaScript \<^verbatim>\<open>Set\<close> of strings, as the list of its elements in insertion order.\<close>

definition set_add :: "string list \<Rightarrow> string \<Rightarrow> string list" where
  "set_add s x = (if x \<in> set s then s else s @ [x])"

definition set_delete :: "string list \<Rightarrow> string \<Rightarrow> string list" where
  "set_delete s x = filter (\<lambda>y. y \<noteq> x) s"

definition new_Set :: "string list \<Rightarrow> string list" where
  "new_Set xs = fold (\<lambda>x s. set_add s x) xs []"

definition positivePatterns :: "string list \<Rightarrow> string list" where
  "positivePatterns ignorePatterns = filter (\<lambda>p. \<not> startsWith p (CHR ''!'')) ignorePatterns"

definition negativePatterns :: "string list \<Rightarrow> string list" where
  "negativePatterns ignorePatterns =
     map (\<lambda>p. drop 1 p) (filter (\<lambda>p. startsWith p (CHR ''!'')) ignorePatterns)"

text \<open>
  The list given to the \<open>ignore\<close> option; \<^verbatim>\<open>.filter(Boolean)\<close> drops the empty strings, among
  them the \<^verbatim>\<open>''\<close> that stands for an absent preamble file.
\<close>

definition ignoreGlobs :: "string list \<Rightarrow> string \<Rightarrow> string \<Rightarrow> string option \<Rightarrow> string list" where
  "ignoreGlobs ignorePatterns ignoreFileName outputFileName preambleFile =
     filter (\<lambda>g. g \<noteq> [])
       (positivePatterns ignorePatterns @
        [''.git/**'', ''node_modules/**'', ignoreFileName, outputFileName,
         (case preambleFile of None \<Rightarrow> [] | Some p \<Rightarrow> p)])"

text \<open>
  The loop over the negative patterns: the matches of each are pushed to \<open>reIncluded\<close>; a
  pattern the library throws on is skipped.
\<close>

fun reinclude_loop :: "runtime \<Rightarrow> string list \<Rightarrow> string list \<Rightarrow> string list" where
  "reinclude_loop rt [] reIncluded = reIncluded"
| "reinclude_loop rt (pat # rest) reIncluded =
     (case glob rt pat [] of
        None \<Rightarrow> reinclude_loop rt rest reIncluded
      | Some matches \<Rightarrow> reinclude_loop rt rest (reIncluded @ matches))"

datatype failure = ProcessExit nat

text \<open>
  Lines 410 to 465 of \<^verbatim>\<open>main\<close>: from the ignore patterns and the reserved names to
  \<open>nonIgnoredFiles\<close>. A throw of the first \<^verbatim>\<open>glob\<close> call ends the process with code 1.
\<close>

definition main_resolve ::
  "runtime \<Rightarrow> string list \<Rightarrow> string \<Rightarrow> string \<Rightarrow> string option \<Rightarrow> failure + string list" where
  "main_resolve rt ignorePatterns ignoreFileName outputFileName preambleFile =
     (case glob rt ''**/*'' (ignoreGlobs ignorePatterns ignoreFileName outputFileName preambleFile) of
        None \<Rightarrow> Inl (ProcessExit 1)
      | Some allFiles \<Rightarrow>
          (let reIncluded = reinclude_loop rt (negativePatterns ignorePatterns) [];
               mergedSet = fold (\<lambda>f s. set_add s f) reIncluded (new_Set allFiles);
               mergedSet = set_delete mergedSet ignoreFileName;
               mergedSet = set_delete mergedSet outputFileName;
               mergedSet = (case preambleFile of
                              None \<Rightarrow> mergedSet
                            | Some p \<Rightarrow> if p = [] then mergedSet else set_delete mergedSet p)
           in Inr mergedSet))"

text \<open>A file is present in the tree when the scan without any \<open>ignore\<close> pattern lists it.\<close>

definition scanned :: "runtime \<Rightarrow> string \<Rightarrow> bool" where
  "scanned rt f = (case glob rt ''**/*'' [] of None \<Rightarrow> False | Some files \<Rightarrow> f \<in> set files)"

subsection \<open>main: writing the document\<close>

text \<open>
  Lines 539 to 555 of \<^verbatim>\<open>main\<close>: the preamble, the table of contents, the sections and
  the end marker.
\<close>

definition main_write ::
  "runtime \<Rightarrow> string \<Rightarrow> string \<Rightarrow> string list \<Rightarrow> int \<Rightarrow> progress option
     \<Rightarrow> wr list \<times> progress option" where
  "main_write rt repoRoot preambleText nonIgnoredFiles maxSize bar =
     (let out0 = [Text preambleText];
          toc = buildTableOfContents nonIgnoredFiles;
          out1 = out0 @ [Text toc];
          (out2, bar') = writeFilesWithIndex rt repoRoot nonIgnoredFiles out1 maxSize bar
      in (out2 @ [EndMarker], bar'))"

subsection \<open>Reference instances of the runtime\<close>

text \<open>
  Concrete library functions for the examples: \<^verbatim>\<open>path.posix.extname\<close> and
  \<^verbatim>\<open>path.posix.join\<close> on normalized paths, and a glob matcher where \<^verbatim>\<open>*\<close> matches within
  a path segment and \<^verbatim>\<open>**\<close> across segments. The general theorems hold for every runtime.
\<close>

fun split_path :: "string \<Rightarrow> string list" where
  "split_path [] = [[]]"
| "split_path (c # cs) =
     (if c = CHR ''/'' then [] # split_path cs
      else (case split_path cs of [] \<Rightarrow> [[c]] | s # ss \<Rightarrow> (c # s) # ss))"

definition posix_extname :: "string \<Rightarrow> string" where
  "posix_extname p =
     (let base = (case filter (\<lambda>s. s \<noteq> []) (split_path p) of
                    [] \<Rightarrow> []
                  | s # ss \<Rightarrow> last (s # ss));
          stem = butlast (rev (dropWhile (\<lambda>c. c \<noteq> CHR ''.'') (rev base)))
      in if stem = [] \<or> base = ''..'' then [] else drop (length stem) base)"

definition posix_join :: "string \<Rightarrow> string \<Rightarrow> string" where
  "posix_join dir name = dir @ ''/'' @ name"

fun seg_match :: "string \<Rightarrow> string \<Rightarrow> bool" where
  "seg_match [] s = (s = [])"
| "seg_match (p # ps) [] = (p = CHR ''*'' \<and> seg_match ps [])"
| "seg_match (p # ps) (c # cs) =
     (if p = CHR ''*'' then seg_match ps (c # cs) \<or> seg_match (p # ps) cs
      else p = c \<and> seg_match ps cs)"

fun segs_match :: "string list \<Rightarrow> string list \<Rightarrow> bool" where
  "segs_match [] ss = (ss = [])"
| "segs_match (p # ps) [] = (p = ''**'' \<and> segs_match ps [])"
| "segs_match (p # ps) (s # ss) =
     (if p = ''**'' then segs_match ps (s # ss) \<or> segs_match (p # ps) ss
      else seg_match p s \<and> segs_match ps ss)"

definition glob_match :: "string \<Rightarrow> string \<Rightarrow> bool" where
  "glob_match pat f = segs_match (split_path pat) (split_path f)"

definition missing_file :: fnode where
  "missing_file =
     \<lparr>stat_result = None, read_result = None, stream_cuts = [], stream_finish = StreamError\<rparr>"

text \<open>
  A readable regular file with the given bytes, whose stream cuts its text at the given
  sizes.
\<close>

definition regular_file :: "string \<Rightarrow> nat list \<Rightarrow> string \<Rightarrow> fnode" where
  "regular_file bytes cuts mtime =
     \<lparr>stat_result = Some \<lparr>st_size = length bytes, st_mtime = mtime\<rparr>,
      read_result = Some bytes,
      stream_cuts = cuts,
      stream_finish = StreamEnd\<rparr>"

text \<open>
  A POSIX runtime over a repository root: the regular files under the root, given by their
  relative paths; every other path is missing. No pattern is rejected.
\<close>

definition posix_runtime :: "string \<Rightarrow> (string \<times> fnode) list \<Rightarrow> runtime" where
  "posix_runtime root files =
     \<lparr>path_extname = posix_extname,
      path_join = posix_join,
      os_win32 = False,
      fs = (\<lambda>p. case map_of (map (\<lambda>(r, n). (posix_join root r, n)) files) p of
                   None \<Rightarrow> missing_file
                 | Some n \<Rightarrow> n),
      minimatch = glob_match,
      glob_rejects = (\<lambda>pat. False),
      tree = map fst files\<rparr>"

text \<open>
  The repository of the examples: two text files (one streamed in two chunks), a binary
  file, the output file of an earlier run, a dependency, a text file with the extension
  \<^verbatim>\<open>.BIN\<close>, a file with a null byte, and an ignore file with a comment, an exclude
  pattern, a blank line, a re-include pattern and a second comment.
\<close>

definition example_ignore_text :: string where
  "example_ignore_text =
     ''# build output'' @ [CHR 0x0D, CHR 0x0A] @ ''*.md'' @ [CHR 0x0A, CHR 0x0A]
     @ ''  !notes.md  '' @ [CHR 0x0A] @ ''#!x'' @ [CHR 0x0A] @ ''*.log''"

definition example_repo :: runtime where
  "example_repo =
     posix_runtime ''/repo''
       [(''a.txt'', regular_file ''hello world'' [5] ''2024-01-01T00:00:00.000Z''),
        (''image.bin'', regular_file ''abcdef'' [] ''2024-01-02T00:00:00.000Z''),
        (''notes.md'', regular_file ''# notes'' [] ''2024-01-03T00:00:00.000Z''),
        (''output.txt'', regular_file [] [] ''2024-01-04T00:00:00.000Z''),
        (''node_modules/x.js'', regular_file ''x'' [] ''2024-01-05T00:00:00.000Z''),
        (''data.BIN'', regular_file ''plain text'' [] ''2024-01-06T00:00:00.000Z''),
        (''weird.txt'',
           regular_file [CHR ''A'', CHR 0x00, CHR ''B''] [] ''2024-01-07T00:00:00.000Z''),
        (''.repo2promptignore'',
           regular_file example_ignore_text [] ''2024-01-08T00:00:00.000Z'')]"

text \<open>
  The same repository with one more file, \<^verbatim>\<open>locked.txt\<close>, that \<^verbatim>\<open>fsp.stat\<close> finds and that
  cannot be opened for reading.
\<close>

definition locked_file :: fnode where
  "locked_file =
     \<lparr>stat_result = Some \<lparr>st_size = 5, st_mtime = ''2024-01-09T00:00:00.000Z''\<rparr>,
      read_result = None, stream_cuts = [], stream_finish = StreamError\<rparr>"

definition example_repo_locked :: runtime where
  "example_repo_locked =
     example_repo\<lparr>fs := (fs example_repo)(''/repo/locked.txt'' := locked_file),
                  tree := tree example_repo @ [''locked.txt'']\<rparr>"

text \<open>
  The same repository with two more text files: \<^verbatim>\<open>latin1.txt\<close>, the three bytes
  \<^verbatim>\<open>FF 61 62\<close>, which are not valid UTF-8, and \<^verbatim>\<open>cafe.txt\<close>, the five bytes
  \<^verbatim>\<open>63 61 66 C3 A9\<close>, which are. Each is read in one chunk.
\<close>

definition example_repo_encodings :: runtime where
  "example_repo_encodings =
     example_repo\<lparr>fs := (fs example_repo)
       (''/repo/latin1.txt'' :=
          regular_file [CHR 0xFF, CHR ''a'', CHR ''b''] [] ''2024-01-10T00:00:00.000Z'',
        ''/repo/cafe.txt'' :=
          regular_file [CHR ''c'', CHR ''a'', CHR ''f'', CHR 0xC3, CHR 0xA9] []
            ''2024-01-11T00:00:00.000Z'')\<rparr>"

subsection \<open>Vocabulary of the properties\<close>

text \<open>Whether \<^verbatim>\<open>fsp.stat\<close> succeeds for an entry of the resolved list.\<close>

definition stat_ok :: "runtime \<Rightarrow> string \<Rightarrow> string \<Rightarrow> bool" where
  "stat_ok rt repoRoot relativePath =
     (stat_result (fs rt (path_join rt repoRoot relativePath)) \<noteq> None)"

text \<open>
  An entry is completed when the iteration reaches its end: \<^verbatim>\<open>fsp.stat\<close> succeeds, and the file
  is binary or its stream resolves.
\<close>

definition entry_completed :: "runtime \<Rightarrow> string \<Rightarrow> int \<Rightarrow> string \<Rightarrow> bool" where
  "entry_completed rt repoRoot maxSize relativePath =
     (stat_ok rt repoRoot relativePath \<and>
      (isBinaryFile rt (path_join rt repoRoot relativePath) \<or>
       snd (streamFileWithLimit rt (path_join rt repoRoot relativePath) [] maxSize) = Resolved))"

text \<open>
  A path is reserved when one of the fixed entries of the \<open>ignore\<close> list matches it, or when
  it is the ignore file name, the output file name or the preamble file.
\<close>

definition reserved :: "runtime \<Rightarrow> string \<Rightarrow> string \<Rightarrow> string option \<Rightarrow> string \<Rightarrow> bool" where
  "reserved rt ignoreFileName outputFileName preambleFile f =
     (list_ex (\<lambda>g. minimatch rt g f) (ignoreGlobs [] ignoreFileName outputFileName preambleFile)
      \<or> f = ignoreFileName \<or> f = outputFileName \<or> preambleFile = Some f)"

section \<open>Properties\<close>

subsection \<open>Lemmas: the table of contents\<close>

lemma upt_shift: "[0..<Suc n] = 0 # map Suc [0..<n]"
  by (simp add: upt_conv_Cons map_Suc_upt del: upt_Suc)

lemma toc_forEach_append:
  "toc_forEach fileList index toc =
     toc @ concat (map (\<lambda>i. number_toString (index + i + 1) @ ''. '' @ fileList ! i @ [newline])
                    [0..<length fileList])"
proof (induction fileList arbitrary: index toc)
  case Nil
  show ?case by simp
next
  case (Cons filePath rest)
  show ?case
    by (simp add: Cons.IH upt_shift comp_def del: upt_Suc)
qed

lemma buildTableOfContents_lines:
  "buildTableOfContents fileList =
     ''Table of Contents:'' @ [newline]
     @ concat (map (\<lambda>i. number_toString (i + 1) @ ''. '' @ fileList ! i @ [newline])
                [0..<length fileList])
     @ [newline]"
  by (simp add: buildTableOfContents_def toc_forEach_append)

lemma digit_char_table:
  "list_all (\<lambda>d. (of_char (digit_char d) :: int) = 48 + int d \<and> is_digit (digit_char d)
               \<and> (digit_char d = CHR ''0'') = (d = 0)) [0..<10]"
  by code_simp

lemma digit_char_code:
  assumes "d < 10"
  shows "(of_char (digit_char d) :: int) = 48 + int d" and "is_digit (digit_char d)"
    and "(digit_char d = CHR ''0'') = (d = 0)"
proof -
  have "d \<in> set [0..<10]"
    using assms by simp
  then have "(of_char (digit_char d) :: int) = 48 + int d \<and> is_digit (digit_char d)
      \<and> (digit_char d = CHR ''0'') = (d = 0)"
    using digit_char_table unfolding list_all_iff by blast
  then show "(of_char (digit_char d) :: int) = 48 + int d" and "is_digit (digit_char d)"
    and "(digit_char d = CHR ''0'') = (d = 0)"
    by simp_all
qed

lemma digits_value_snoc:
  "digits_value (ds @ [c]) = 10 * digits_value ds + ((of_char c :: int) - 48)"
  by (simp add: digits_value_def)

lemma number_toString_decimal:
  "digits_value (number_toString n) = int n
   \<and> list_all is_digit (number_toString n)
   \<and> number_toString n \<noteq> []
   \<and> (hd (number_toString n) = CHR ''0'') = (n = 0)"
proof (induction n rule: number_toString.induct)
  case (1 n)
  show ?case
  proof (cases "n < 10")
    case True
    then show ?thesis
      using digit_char_code [OF True]
      by (simp add: number_toString.simps [of n] digits_value_def)
  next
    case False
    have digit: "n mod 10 < 10"
      by simp
    have ih: "digits_value (number_toString (n div 10)) = int (n div 10)"
      "list_all is_digit (number_toString (n div 10))"
      "number_toString (n div 10) \<noteq> []"
      "(hd (number_toString (n div 10)) = CHR ''0'') = (n div 10 = 0)"
      using "1.IH" [OF False] by simp_all
    have unfold: "number_toString n = number_toString (n div 10) @ [digit_char (n mod 10)]"
      using False by (simp add: number_toString.simps [of n])
    have "n div 10 \<noteq> 0"
      using False by simp
    moreover have "int (n div 10) * 10 + int (n mod 10) = int n"
      by (metis div_mult_mod_eq of_nat_add of_nat_mult of_nat_numeral)
    ultimately show ?thesis
      unfolding unfold using ih digit_char_code [OF digit]
      by (simp add: digits_value_snoc)
  qed
qed

subsection \<open>Lemmas: what the stream writes\<close>

lemma rendered_append: "rendered (xs @ ys) = rendered xs @ rendered ys"
  by (simp add: rendered_def)

lemma buffer_slice_prefix:
  "0 \<le> r \<Longrightarrow> r \<le> int (length buf) \<Longrightarrow> buffer_slice buf 0 r = take (nat r) buf"
  by (auto simp: buffer_slice_def Let_def min_def)

lemma fold_on_data_truncated:
  "truncated s \<Longrightarrow> fold (on_data m) cs s = s"
  by (induction cs) (simp_all add: on_data_def)

lemma fold_on_data_bytes:
  assumes "\<not> truncated s" "0 \<le> bytesWritten s" "bytesWritten s \<le> m"
  shows "rendered (sink (fold (on_data m) cs s)) =
           rendered (sink s) @
           (if m < bytesWritten s + int (length (concat cs))
            then take (nat (m - bytesWritten s)) (concat cs) @ truncation_marker
            else concat cs)
         \<and> truncated (fold (on_data m) cs s) = (m < bytesWritten s + int (length (concat cs)))"
  using assms
proof (induction cs arbitrary: s)
  case Nil
  then show ?case by simp
next
  case (Cons c cs)
  show ?case
  proof (cases "m < bytesWritten s + int (length c)")
    case True
    have step: "on_data m c s =
        s\<lparr>sink := sink s @ [Content (buffer_slice c 0 (m - bytesWritten s)), TruncationMarker],
          truncated := True\<rparr>"
      using True Cons.prems(1) by (simp add: on_data_def Let_def)
    have slice: "buffer_slice c 0 (m - bytesWritten s) = take (nat (m - bytesWritten s)) c"
      using True Cons.prems by (intro buffer_slice_prefix) auto
    have short: "nat (m - bytesWritten s) \<le> length c"
      using True by linarith
    have "fold (on_data m) (c # cs) s = on_data m c s"
      using step by (simp add: fold_on_data_truncated)
    then show ?thesis
      using True step slice short by (simp add: rendered_append rendered_def)
  next
    case False
    define s1 where "s1 = on_data m c s"
    have step: "s1 = s\<lparr>sink := sink s @ [Content c],
                        bytesWritten := bytesWritten s + int (length c)\<rparr>"
      using False Cons.prems(1) by (simp add: s1_def on_data_def)
    have pre: "\<not> truncated s1" "0 \<le> bytesWritten s1" "bytesWritten s1 \<le> m"
      using step False Cons.prems by simp_all
    have full: "length c \<le> nat (m - bytesWritten s)"
      using False Cons.prems by linarith
    have rest: "nat (m - bytesWritten s) - length c = nat (m - bytesWritten s1)"
      using step by simp
    have "fold (on_data m) (c # cs) s = fold (on_data m) cs s1"
      by (simp add: s1_def)
    then show ?thesis
      using Cons.IH [OF pre] step full rest
      by (simp add: rendered_append rendered_def add.assoc)
  qed
qed

lemma fold_on_data_marker:
  "TruncationMarker \<in> set (sink (fold (on_data m) cs s)) \<longleftrightarrow>
     TruncationMarker \<in> set (sink s) \<or> (\<not> truncated s \<and> truncated (fold (on_data m) cs s))"
proof (induction cs arbitrary: s)
  case Nil
  show ?case by simp
next
  case (Cons c cs)
  show ?case
  proof (cases "truncated s")
    case True
    then show ?thesis
      using fold_on_data_truncated [OF True, of m "c # cs"] by simp
  next
    case False
    show ?thesis
    proof (cases "m < bytesWritten s + int (length c)")
      case True
      have "truncated (on_data m c s)"
        "sink (on_data m c s) = sink s @ [Content (buffer_slice c 0 (m - bytesWritten s)), TruncationMarker]"
        using True False by (simp_all add: on_data_def Let_def)
      then show ?thesis
        using False by (simp add: fold_on_data_truncated)
    next
      case over: False
      have "\<not> truncated (on_data m c s)" "sink (on_data m c s) = sink s @ [Content c]"
        using over False by (simp_all add: on_data_def)
      then show ?thesis
        using False Cons.IH [of "on_data m c s"] by simp
    qed
  qed
qed

lemma fold_on_data_last:
  "\<not> truncated s \<Longrightarrow> truncated (fold (on_data m) cs s) \<Longrightarrow>
     last (sink (fold (on_data m) cs s)) = TruncationMarker"
proof (induction cs arbitrary: s)
  case Nil
  then show ?case by simp
next
  case (Cons c cs)
  show ?case
  proof (cases "m < bytesWritten s + int (length c)")
    case True
    have "truncated (on_data m c s)"
      "sink (on_data m c s) = sink s @ [Content (buffer_slice c 0 (m - bytesWritten s)), TruncationMarker]"
      using True Cons.prems(1) by (simp_all add: on_data_def Let_def)
    then show ?thesis
      by (simp add: fold_on_data_truncated)
  next
    case False
    have "\<not> truncated (on_data m c s)"
      using False Cons.prems(1) by (simp add: on_data_def)
    then show ?thesis
      using Cons.IH [of "on_data m c s"] Cons.prems(2) by simp
  qed
qed

lemma stream_bytes:
  assumes "0 \<le> maxSize"
  shows "rendered (fst (streamFileWithLimit rt p out maxSize)) =
           rendered out @
           (if maxSize < int (length (concat (stream_chunks (fs rt p))))
            then take (nat maxSize) (concat (stream_chunks (fs rt p))) @ truncation_marker
            else concat (stream_chunks (fs rt p)))"
    and "TruncationMarker \<in> set (fst (streamFileWithLimit rt p out maxSize)) \<longleftrightarrow>
           TruncationMarker \<in> set out \<or> maxSize < int (length (concat (stream_chunks (fs rt p))))"
proof -
  let ?s = "\<lparr>bytesWritten = 0, truncated = False, sink = out\<rparr>"
  have pre: "\<not> truncated ?s" "0 \<le> bytesWritten ?s" "bytesWritten ?s \<le> maxSize"
    using assms by simp_all
  show "rendered (fst (streamFileWithLimit rt p out maxSize)) =
           rendered out @
           (if maxSize < int (length (concat (stream_chunks (fs rt p))))
            then take (nat maxSize) (concat (stream_chunks (fs rt p))) @ truncation_marker
            else concat (stream_chunks (fs rt p)))"
    using fold_on_data_bytes [OF pre, of "stream_chunks (fs rt p)"]
    by (simp add: streamFileWithLimit_def Let_def)
  show "TruncationMarker \<in> set (fst (streamFileWithLimit rt p out maxSize)) \<longleftrightarrow>
           TruncationMarker \<in> set out \<or> maxSize < int (length (concat (stream_chunks (fs rt p))))"
    using fold_on_data_bytes [OF pre, of "stream_chunks (fs rt p)"]
      fold_on_data_marker [of maxSize "stream_chunks (fs rt p)" ?s]
    by (simp add: streamFileWithLimit_def Let_def)
qed

lemma concat_chop: "concat (chop cuts bs) = bs"
  by (induction cuts bs rule: chop.induct) simp_all

lemma concat_stream_chunks:
  "read_result f = Some bytes \<Longrightarrow> concat (stream_chunks f) = utf8_reencode bytes"
  by (simp add: stream_chunks_def concat_chop)

lemma utf8_reencode_ascii:
  "list_all (\<lambda>c. (of_char c :: int) < 0x80) bs \<Longrightarrow> utf8_reencode bs = bs"
  by (induction bs) simp_all

lemma stream_writes_the_reencoded_text:
  assumes "0 \<le> C" and "read_result (fs rt p) = Some bytes"
  shows "rendered (fst (streamFileWithLimit rt p out C)) =
           rendered out @
           (if C < int (length (utf8_reencode bytes))
            then take (nat C) (utf8_reencode bytes) @ truncation_marker
            else utf8_reencode bytes)"
  using stream_bytes(1) [OF assms(1), of rt p out] concat_stream_chunks [OF assms(2)]
  by simp

lemma fold_on_data_flags:
  "truncated s = truncated t \<Longrightarrow> bytesWritten s = bytesWritten t \<Longrightarrow>
     truncated (fold (on_data m) cs s) = truncated (fold (on_data m) cs t)"
proof (induction cs arbitrary: s t)
  case Nil
  then show ?case by simp
next
  case (Cons c cs)
  have "truncated (on_data m c s) = truncated (on_data m c t)"
    "bytesWritten (on_data m c s) = bytesWritten (on_data m c t)"
    using Cons.prems by (simp_all add: on_data_def Let_def)
  then show ?case
    using Cons.IH [of "on_data m c s" "on_data m c t"] by simp
qed

lemma stream_settled_any_sink:
  "snd (streamFileWithLimit rt p out m) = snd (streamFileWithLimit rt p [] m)"
  using fold_on_data_flags [of "\<lparr>bytesWritten = 0, truncated = False, sink = out\<rparr>"
      "\<lparr>bytesWritten = 0, truncated = False, sink = []\<rparr>" m "stream_chunks (fs rt p)"]
  by (simp add: streamFileWithLimit_def Let_def)

subsection \<open>Lemmas: the sink only grows\<close>

lemma section_numbers_append: "section_numbers (xs @ ys) = section_numbers xs @ section_numbers ys"
  by (simp add: section_numbers_def)

lemma path_lines_append: "path_lines (xs @ ys) = path_lines xs @ path_lines ys"
  by (simp add: path_lines_def)

lemma on_data_sink: "\<exists>ws. sink (on_data m c s) = sink s @ ws \<and> section_numbers ws = [] \<and> path_lines ws = []"
  by (simp add: on_data_def Let_def section_numbers_def path_lines_def)

lemma fold_on_data_sink:
  "\<exists>ws. sink (fold (on_data m) cs s) = sink s @ ws \<and> section_numbers ws = [] \<and> path_lines ws = []"
proof (induction cs arbitrary: s)
  case Nil
  show ?case by (simp add: section_numbers_def path_lines_def)
next
  case (Cons c cs)
  obtain ws1 where w1: "sink (on_data m c s) = sink s @ ws1" "section_numbers ws1 = []" "path_lines ws1 = []"
    using on_data_sink by blast
  obtain ws2 where w2: "sink (fold (on_data m) cs (on_data m c s)) = sink (on_data m c s) @ ws2"
    "section_numbers ws2 = []" "path_lines ws2 = []"
    using Cons.IH by blast
  have "sink (fold (on_data m) (c # cs) s) = sink s @ (ws1 @ ws2)"
    using w1 w2 by simp
  moreover have "section_numbers (ws1 @ ws2) = []" "path_lines (ws1 @ ws2) = []"
    using w1 w2 by (simp_all add: section_numbers_def path_lines_def)
  ultimately show ?case by blast
qed

lemma stream_sink:
  "\<exists>ws. fst (streamFileWithLimit rt p out m) = out @ ws \<and> section_numbers ws = [] \<and> path_lines ws = []"
  using fold_on_data_sink [of m "stream_chunks (fs rt p)" "\<lparr>bytesWritten = 0, truncated = False, sink = out\<rparr>"]
  by (simp add: streamFileWithLimit_def Let_def)

lemma write_entry_sink:
  "\<exists>ws. fst (write_entry rt root m idx p (out, bar)) = out @ ws
     \<and> section_numbers ws = (if stat_ok rt root p then [idx + 1] else [])
     \<and> path_lines ws = (if stat_ok rt root p then [p] else [])"
proof (cases "stat_result (fs rt (path_join rt root p))")
  case None
  then show ?thesis by (simp add: write_entry_def stat_ok_def section_numbers_def path_lines_def)
next
  case (Some st)
  show ?thesis
  proof (cases "isBinaryFile rt (path_join rt root p)")
    case True
    then show ?thesis using Some
      by (simp add: write_entry_def stat_ok_def Let_def section_numbers_def path_lines_def)
  next
    case False
    obtain ws where ws: "fst (streamFileWithLimit rt (path_join rt root p)
        (out @ [SectionHeader (idx + 1), PathLine p]) m) = (out @ [SectionHeader (idx + 1), PathLine p]) @ ws"
      "section_numbers ws = []" "path_lines ws = []"
      using stream_sink by blast
    obtain o2 r where sr: "streamFileWithLimit rt (path_join rt root p)
        (out @ [SectionHeader (idx + 1), PathLine p]) m = (o2, r)"
      by (cases "streamFileWithLimit rt (path_join rt root p) (out @ [SectionHeader (idx + 1), PathLine p]) m")
    have o2: "o2 = out @ [SectionHeader (idx + 1), PathLine p] @ ws"
      using ws sr by simp
    show ?thesis
    proof (cases r)
      case Resolved
      have "fst (write_entry rt root m idx p (out, bar)) = out @ ([SectionHeader (idx + 1), PathLine p] @ ws @ [Newline])"
        using Some False sr Resolved o2 by (simp add: write_entry_def Let_def)
      moreover have "section_numbers ([SectionHeader (idx + 1), PathLine p] @ ws @ [Newline]) = [idx + 1]"
        using ws(2) by (simp add: section_numbers_def)
      moreover have "path_lines ([SectionHeader (idx + 1), PathLine p] @ ws @ [Newline]) = [p]"
        using ws(3) by (simp add: path_lines_def)
      ultimately show ?thesis using Some by (auto simp: stat_ok_def)
    next
      case Rejected
      have "fst (write_entry rt root m idx p (out, bar)) = out @ ([SectionHeader (idx + 1), PathLine p] @ ws)"
        using Some False sr Rejected o2 by (simp add: write_entry_def Let_def)
      moreover have "section_numbers ([SectionHeader (idx + 1), PathLine p] @ ws) = [idx + 1]"
        using ws(2) by (simp add: section_numbers_def)
      moreover have "path_lines ([SectionHeader (idx + 1), PathLine p] @ ws) = [p]"
        using ws(3) by (simp add: path_lines_def)
      ultimately show ?thesis using Some by (auto simp: stat_ok_def)
    qed
  qed
qed

lemma write_loop_sink:
  "\<exists>ws. fst (write_loop rt root files m idx st) = fst st @ ws
     \<and> section_numbers ws = map Suc (filter (\<lambda>i. stat_ok rt root (files ! i)) [idx..<length files])
     \<and> path_lines ws = map (\<lambda>i. files ! i) (filter (\<lambda>i. stat_ok rt root (files ! i)) [idx..<length files])"
proof (induction rt root files m idx st rule: write_loop.induct)
  case (1 rt root files m idx st)
  show ?case
  proof (cases "idx < length files")
    case False
    then show ?thesis
      by (simp add: write_loop.simps [of rt root files m idx st] section_numbers_def path_lines_def)
  next
    case True
    define st' where "st' = write_entry rt root m idx (files ! idx) st"
    obtain ws1 where w1: "fst st' = fst st @ ws1"
      "section_numbers ws1 = (if stat_ok rt root (files ! idx) then [idx + 1] else [])"
      "path_lines ws1 = (if stat_ok rt root (files ! idx) then [files ! idx] else [])"
      using write_entry_sink [of rt root m idx "files ! idx" "fst st" "snd st"]
      unfolding st'_def by auto
    obtain ws2 where w2: "fst (write_loop rt root files m (idx + 1) st') = fst st' @ ws2"
      "section_numbers ws2 = map Suc (filter (\<lambda>i. stat_ok rt root (files ! i)) [idx + 1..<length files])"
      "path_lines ws2 = map (\<lambda>i. files ! i) (filter (\<lambda>i. stat_ok rt root (files ! i)) [idx + 1..<length files])"
      using "1.IH" [OF True] unfolding st'_def by blast
    have step: "write_loop rt root files m idx st = write_loop rt root files m (idx + 1) st'"
      using True by (simp add: write_loop.simps [of rt root files m idx st] st'_def)
    have range: "[idx..<length files] = idx # [idx + 1..<length files]"
      using True by (simp add: upt_conv_Cons)
    have "fst (write_loop rt root files m idx st) = fst st @ (ws1 @ ws2)"
      using step w1(1) w2(1) by simp
    moreover have "section_numbers (ws1 @ ws2) = section_numbers ws1 @ section_numbers ws2"
      by (simp add: section_numbers_def)
    moreover have "path_lines (ws1 @ ws2) = path_lines ws1 @ path_lines ws2"
      by (simp add: path_lines_def)
    ultimately show ?thesis
      unfolding range using w1(2,3) w2(2,3) by (intro exI [of _ "ws1 @ ws2"]) simp
  qed
qed

lemma writeFilesWithIndex_sink:
  "\<exists>ws. fst (writeFilesWithIndex rt root files out m bar) = out @ ws
     \<and> section_numbers ws = map Suc (filter (\<lambda>i. stat_ok rt root (files ! i)) [0..<length files])
     \<and> path_lines ws = map (\<lambda>i. files ! i) (filter (\<lambda>i. stat_ok rt root (files ! i)) [0..<length files])"
  using write_loop_sink [of rt root files m 0 "(out, bar)"]
  by (simp add: writeFilesWithIndex_def split_beta)

lemma main_write_prefix:
  "\<exists>ws. fst (main_write rt repoRoot preambleText fileList maxSize bar) =
     [Text preambleText, Text (buildTableOfContents fileList)] @ ws"
proof -
  obtain ws where "fst (writeFilesWithIndex rt repoRoot fileList
      [Text preambleText, Text (buildTableOfContents fileList)] maxSize bar) =
      [Text preambleText, Text (buildTableOfContents fileList)] @ ws"
    using writeFilesWithIndex_sink by blast
  then have "fst (main_write rt repoRoot preambleText fileList maxSize bar) =
     [Text preambleText, Text (buildTableOfContents fileList)] @ (ws @ [EndMarker])"
    by (simp add: main_write_def Let_def split_beta)
  then show ?thesis by blast
qed

subsection \<open>Lemmas: the progress bar\<close>

lemma write_entry_bar:
  "snd (write_entry rt root m idx p (out, bar)) =
     (if entry_completed rt root m p then bar_increment bar else bar)"
proof (cases "stat_result (fs rt (path_join rt root p))")
  case None
  then show ?thesis
    by (simp add: write_entry_def entry_completed_def stat_ok_def)
next
  case (Some st)
  show ?thesis
  proof (cases "isBinaryFile rt (path_join rt root p)")
    case True
    then show ?thesis
      using Some by (simp add: write_entry_def entry_completed_def stat_ok_def Let_def)
  next
    case False
    let ?out1 = "out @ [SectionHeader (idx + 1), PathLine p]"
    have settled: "snd (streamFileWithLimit rt (path_join rt root p) ?out1 m) =
        snd (streamFileWithLimit rt (path_join rt root p) [] m)"
      by (rule stream_settled_any_sink)
    show ?thesis
    proof (cases "streamFileWithLimit rt (path_join rt root p) ?out1 m")
      case (Pair out2 r)
      then show ?thesis
        using Some False settled
        by (cases r) (simp_all add: write_entry_def entry_completed_def stat_ok_def Let_def)
    qed
  qed
qed

lemma write_loop_bar:
  "snd (write_loop rt root files m idx st) =
     (bar_increment ^^ length (filter (\<lambda>i. entry_completed rt root m (files ! i))
                                 [idx..<length files])) (snd st)"
proof (induction rt root files m idx st rule: write_loop.induct)
  case (1 rt root files m idx st)
  show ?case
  proof (cases "idx < length files")
    case False
    then show ?thesis
      by (simp add: write_loop.simps [of rt root files m idx st])
  next
    case True
    define st' where "st' = write_entry rt root m idx (files ! idx) st"
    have entry: "snd st' =
        (if entry_completed rt root m (files ! idx) then bar_increment (snd st) else snd st)"
      using write_entry_bar [of rt root m idx "files ! idx" "fst st" "snd st"]
      by (simp add: st'_def)
    have step: "write_loop rt root files m idx st = write_loop rt root files m (idx + 1) st'"
      using True by (simp add: write_loop.simps [of rt root files m idx st] st'_def)
    have range: "[idx..<length files] = idx # [idx + 1..<length files]"
      using True by (simp add: upt_conv_Cons)
    show ?thesis
      unfolding step range using "1.IH" [OF True] entry
      by (simp add: st'_def funpow_swap1)
  qed
qed

lemma bar_increment_times:
  "(bar_increment ^^ n) (Some b) = Some (b\<lparr>increments := increments b + n\<rparr>)"
  by (induction n) (simp_all add: bar_increment_def)

lemma progress_counts_completed_entries:
  "snd (writeFilesWithIndex rt root files out m (Some b)) =
     Some (b\<lparr>increments := increments b +
                length (filter (\<lambda>i. entry_completed rt root m (files ! i)) [0..<length files]),
             stops := stops b + 1\<rparr>)"
  using write_loop_bar [of rt root files m 0 "(out, Some b)"]
  by (simp add: writeFilesWithIndex_def split_beta bar_increment_times bar_stop_def)

lemma no_progress_bar:
  "snd (writeFilesWithIndex rt root files out m None) = None"
proof -
  have "(bar_increment ^^ n) None = None" for n
    by (induction n) (simp_all add: bar_increment_def)
  then show ?thesis
    using write_loop_bar [of rt root files m 0 "(out, None)"]
    by (simp add: writeFilesWithIndex_def split_beta bar_stop_def)
qed

subsection \<open>Lemmas: the scan for a null byte\<close>

lemma has_null_from_iff:
  "has_null_from buffer bytesRead i = (\<exists>j. i \<le> j \<and> j < bytesRead \<and> buffer ! j = CHR 0x00)"
proof (induction buffer bytesRead i rule: has_null_from.induct)
  case (1 buffer bytesRead i)
  show ?case
  proof (cases "i < bytesRead")
    case False
    then show ?thesis
      by (simp add: has_null_from.simps [of buffer bytesRead i])
  next
    case True
    show ?thesis
    proof (cases "buffer ! i = CHR 0x00")
      case null: True
      then show ?thesis
        using True by (auto simp: has_null_from.simps [of buffer bytesRead i])
    next
      case other: False
      have "has_null_from buffer bytesRead i = has_null_from buffer bytesRead (i + 1)"
        using True other by (simp add: has_null_from.simps [of buffer bytesRead i])
      also have "\<dots> = (\<exists>j. i + 1 \<le> j \<and> j < bytesRead \<and> buffer ! j = CHR 0x00)"
        using "1.IH" [OF True other] .
      also have "\<dots> = (\<exists>j. i \<le> j \<and> j < bytesRead \<and> buffer ! j = CHR 0x00)"
        using other by (metis Suc_eq_plus1 Suc_leD Suc_leI le_neq_implies_less)
      finally show ?thesis .
    qed
  qed
qed

lemma nth_before_padding:
  "(\<exists>j<length got. (got @ pad) ! j = z) = (z \<in> set got)"
proof -
  have "(\<exists>j<length got. (got @ pad) ! j = z) = (\<exists>j<length got. got ! j = z)"
    by (auto simp: nth_append)
  also have "\<dots> = (z \<in> set got)"
    by (metis in_set_conv_nth)
  finally show ?thesis .
qed

lemma scan_of_fd_read:
  "(case fd_read bytes of (bytesRead, buffer) \<Rightarrow> has_null_from buffer bytesRead 0) =
     (CHR 0x00 \<in> set (take 512 bytes))"
proof -
  define got where "got = take 512 bytes"
  have "fd_read bytes = (length got, got @ replicate (512 - length got) (CHR 0x00))"
    by (simp add: fd_read_def Let_def got_def)
  then show ?thesis
    using nth_before_padding [of got "replicate (512 - length got) (CHR 0x00)" "CHR 0x00"]
    by (simp add: has_null_from_iff got_def)
qed

subsection \<open>Lemmas: the pattern loader\<close>

lemma ignore_loop_append:
  "ignore_loop rt lines patterns =
     patterns @ map (\<lambda>l. normalize_separators rt (trim l))
                  (filter (\<lambda>l. trim l \<noteq> [] \<and> \<not> startsWith (trim l) (CHR ''#'')) lines)"
  by (induction lines arbitrary: patterns) (simp_all add: Let_def)

lemma startsWith_normalize:
  "c \<noteq> CHR ''/'' \<Longrightarrow> c \<noteq> CHR 0x5C \<Longrightarrow>
     startsWith (normalize_separators rt s) c = startsWith s c"
  by (cases s) (auto simp: startsWith_def normalize_separators_def)

lemma startsWith_nonempty: "startsWith s c \<Longrightarrow> s \<noteq> []"
  by (auto simp: startsWith_def)

lemma startsWith_unique: "startsWith s c \<Longrightarrow> startsWith s d \<Longrightarrow> c = d"
  by (cases s) (auto simp: startsWith_def)

lemma trim_keeps_first:
  assumes "startsWith l c" "\<not> is_space c"
  shows "startsWith (trim l) c"
proof -
  obtain r where l: "l = c # r"
    using assms(1) by (cases l) (auto simp: startsWith_def)
  have front: "dropWhile is_space l = c # r"
    using assms(2) l by simp
  have "dropWhile is_space (rev r @ [c]) = dropWhile is_space (rev r) @ [c]"
    using assms(2) by (induction "rev r" arbitrary: r) (auto simp: dropWhile_append)
  then have "trim l = c # rev (dropWhile is_space (rev r))"
    using front by (simp add: trim_def)
  then show ?thesis
    by (simp add: startsWith_def)
qed

subsection \<open>Lemmas: the size ceiling\<close>

lemma main_maxSize_fallback:
  "main_maxSize None = 1048576"
  "parseInt10 s = None \<Longrightarrow> main_maxSize (Some s) = 1048576"
  "parseInt10 s = Some 0 \<Longrightarrow> main_maxSize (Some s) = 1048576"
proof -
  have dflt: "parseInt10 ''1048576'' = Some 1048576"
    by code_simp
  show "main_maxSize None = 1048576"
    by (simp add: main_maxSize_def dflt)
  show "parseInt10 s = None \<Longrightarrow> main_maxSize (Some s) = 1048576"
    by (simp add: main_maxSize_def dflt)
  show "parseInt10 s = Some 0 \<Longrightarrow> main_maxSize (Some s) = 1048576"
    by (simp add: main_maxSize_def dflt)
qed

subsection \<open>Lemmas: the file-set resolver\<close>

lemma set_fold_set_add: "set (fold (\<lambda>x s. set_add s x) xs acc) = set acc \<union> set xs"
  by (induction xs arbitrary: acc) (auto simp: set_add_def)

lemma set_new_Set: "set (new_Set xs) = set xs"
  by (simp add: new_Set_def set_fold_set_add)

lemma set_set_delete: "set (set_delete s x) = set s - {x}"
  by (auto simp: set_delete_def)

lemma reinclude_loop_superset:
  "set reIncluded \<subseteq> set (reinclude_loop rt pats reIncluded)"
proof (induction pats arbitrary: reIncluded)
  case Nil
  show ?case by simp
next
  case (Cons pat rest)
  show ?case
  proof (cases "glob rt pat []")
    case None
    then show ?thesis using Cons.IH [of reIncluded] by simp
  next
    case (Some ms)
    then show ?thesis using Cons.IH [of "reIncluded @ ms"] by auto
  qed
qed

lemma reinclude_loop_matches:
  "pat \<in> set pats \<Longrightarrow> glob rt pat [] = Some ms \<Longrightarrow> set ms \<subseteq> set (reinclude_loop rt pats reIncluded)"
proof (induction pats arbitrary: reIncluded)
  case Nil
  then show ?case by simp
next
  case (Cons q rest)
  show ?case
  proof (cases "q = pat")
    case True
    have "set (reIncluded @ ms) \<subseteq> set (reinclude_loop rt rest (reIncluded @ ms))"
      by (rule reinclude_loop_superset)
    then show ?thesis
      using True Cons.prems(2) by auto
  next
    case False
    then have "pat \<in> set rest"
      using Cons.prems(1) by simp
    then show ?thesis
      using Cons.IH [OF _ Cons.prems(2)] by (cases "glob rt q []") auto
  qed
qed

lemma main_resolve_members:
  assumes "main_resolve rt pats ign outp pre = Inr resolved"
  shows "\<exists>allFiles. glob rt ''**/*'' (ignoreGlobs pats ign outp pre) = Some allFiles
     \<and> set resolved =
         (set allFiles \<union> set (reinclude_loop rt (negativePatterns pats) []))
         - {ign} - {outp} - (case pre of None \<Rightarrow> {} | Some p \<Rightarrow> if p = [] then {} else {p})"
proof (cases "glob rt ''**/*'' (ignoreGlobs pats ign outp pre)")
  case None
  then show ?thesis using assms by (simp add: main_resolve_def)
next
  case (Some allFiles)
  have "resolved =
      (let mergedSet = fold (\<lambda>f s. set_add s f) (reinclude_loop rt (negativePatterns pats) [])
                         (new_Set allFiles);
           mergedSet = set_delete mergedSet ign;
           mergedSet = set_delete mergedSet outp
       in case pre of None \<Rightarrow> mergedSet
          | Some p \<Rightarrow> if p = [] then mergedSet else set_delete mergedSet p)"
    using assms Some by (simp add: main_resolve_def Let_def)
  then have "set resolved =
         (set allFiles \<union> set (reinclude_loop rt (negativePatterns pats) []))
         - {ign} - {outp} - (case pre of None \<Rightarrow> {} | Some p \<Rightarrow> if p = [] then {} else {p})"
    by (simp add: Let_def set_fold_set_add set_new_Set set_set_delete split: option.split)
  then show ?thesis using Some by simp
qed

lemma main_resolve_exit:
  assumes "main_resolve rt pats ign outp pre = Inl e"
  shows "e = ProcessExit 1 \<and>
     (glob_rejects rt ''**/*'' \<or> list_ex (glob_rejects rt) (ignoreGlobs pats ign outp pre))"
proof (cases "glob rt ''**/*'' (ignoreGlobs pats ign outp pre)")
  case None
  then have "glob_rejects rt ''**/*'' \<or> list_ex (glob_rejects rt) (ignoreGlobs pats ign outp pre)"
    by (simp add: glob_def split: if_splits)
  then show ?thesis
    using assms None by (simp add: main_resolve_def)
next
  case (Some allFiles)
  then show ?thesis
    using assms by (simp add: main_resolve_def Let_def)
qed

lemma list_ex_ignoreGlobs:
  "list_ex P (ignoreGlobs pats ign outp pre) \<Longrightarrow>
     list_ex P (positivePatterns pats) \<or> list_ex P (ignoreGlobs [] ign outp pre)"
  by (auto simp: ignoreGlobs_def positivePatterns_def list_ex_iff)

section \<open>The claims\<close>

subsection \<open>The document assembler\<close>

text \<open>
  C1, as the code has it. Every entry whose \<^verbatim>\<open>fsp.stat\<close> succeeds gets a section header, and
  the number in the header is the entry's 1-based position in the list given to
  \<open>writeFilesWithIndex\<close>, which is its number in the table of contents: the headers written
  are exactly the positions of the entries that were not skipped, in order, each followed
  by the entry's path line. The loop keeps no counter of the sections written, so a skipped
  entry leaves a gap in the section numbers. An entry whose \<^verbatim>\<open>fsp.stat\<close> fails writes
  nothing at all.
\<close>

theorem section_number_is_list_position:
  "section_numbers (fst (writeFilesWithIndex rt repoRoot files out maxSize bar)) =
     section_numbers out @ map Suc (filter (\<lambda>i. stat_ok rt repoRoot (files ! i)) [0..<length files])
   \<and> path_lines (fst (writeFilesWithIndex rt repoRoot files out maxSize bar)) =
     path_lines out @ map (\<lambda>i. files ! i) (filter (\<lambda>i. stat_ok rt repoRoot (files ! i)) [0..<length files])
   \<and> (\<not> stat_ok rt repoRoot relativePath \<longrightarrow>
        write_entry rt repoRoot maxSize idx relativePath st = st)"
proof -
  obtain ws where ws: "fst (writeFilesWithIndex rt repoRoot files out maxSize bar) = out @ ws"
    "section_numbers ws = map Suc (filter (\<lambda>i. stat_ok rt repoRoot (files ! i)) [0..<length files])"
    "path_lines ws = map (\<lambda>i. files ! i) (filter (\<lambda>i. stat_ok rt repoRoot (files ! i)) [0..<length files])"
    using writeFilesWithIndex_sink by blast
  have skip: "\<not> stat_ok rt repoRoot relativePath \<longrightarrow>
        write_entry rt repoRoot maxSize idx relativePath st = st"
    by (cases st) (simp add: write_entry_def stat_ok_def)
  show ?thesis
    using ws skip by (simp add: section_numbers_append path_lines_append)
qed

theorem section_number_is_list_position_witness:
  "\<not> stat_ok example_repo ''/repo'' ''gone.txt''
   \<and> write_entry example_repo ''/repo'' 1048576 0 ''gone.txt'' ([], None) = ([], None)
   \<and> section_numbers (fst (writeFilesWithIndex example_repo ''/repo''
        [''gone.txt'', ''a.txt'', ''image.bin''] [] 1048576 None)) = [2, 3]
   \<and> path_lines (fst (writeFilesWithIndex example_repo ''/repo''
        [''gone.txt'', ''a.txt'', ''image.bin''] [] 1048576 None)) = [''a.txt'', ''image.bin'']"
proof -
  have gone: "\<not> stat_ok example_repo ''/repo'' ''gone.txt''"
    by code_simp
  have present: "stat_ok example_repo ''/repo'' ''a.txt''" "stat_ok example_repo ''/repo'' ''image.bin''"
    by code_simp+
  have none: "section_numbers [] = []" "path_lines [] = []"
    by (simp_all add: section_numbers_def path_lines_def)
  have idx: "[0..<length [''gone.txt'', ''a.txt'', ''image.bin'']] = [0, 1, 2]"
    by code_simp
  show ?thesis
    using section_number_is_list_position [of example_repo "''/repo''"
        "[''gone.txt'', ''a.txt'', ''image.bin'']" "[]" 1048576 None "''gone.txt''" 0 "([], None)"]
      gone present none
    unfolding idx by simp
qed

text \<open>
  The claim C1 as it is stated fails: with a missing first entry, the only section written
  carries the number 2, although no section was written before it.
\<close>

theorem section_number_not_written_count:
  "section_numbers (fst (writeFilesWithIndex example_repo ''/repo'' [''gone.txt'', ''a.txt''] []
      1048576 None)) = [2]
   \<and> path_lines (fst (writeFilesWithIndex example_repo ''/repo'' [''gone.txt'', ''a.txt''] []
      1048576 None)) = [''a.txt'']
   \<and> section_numbers (fst (writeFilesWithIndex example_repo ''/repo'' [''gone.txt'', ''a.txt''] []
      1048576 None)) \<noteq> [1 ..< Suc (length (path_lines (fst (writeFilesWithIndex example_repo
        ''/repo'' [''gone.txt'', ''a.txt''] [] 1048576 None))))]"
  by code_simp

text \<open>
  The other failure the handler catches is a rejected stream. It comes after the header and
  the path line were written, so the entry keeps both, without content and without the
  closing newline, and the next entry follows.
\<close>

lemma unreadable_entry_keeps_its_header:
  "writeFilesWithIndex example_repo_locked ''/repo'' [''locked.txt'', ''a.txt''] [] 1048576 None =
     ([SectionHeader 1, PathLine ''locked.txt'',
       SectionHeader 2, PathLine ''a.txt'', Content ''hello'', Content '' world'', Newline],
      None)"
  by code_simp

text \<open>
  C4. The claim asks for one increment of the progress observer per attempted entry, the
  skipped ones included. In the code the \<^verbatim>\<open>catch\<close> block ends in \<^verbatim>\<open>continue\<close>, which leaves
  the iteration before \<^verbatim>\<open>bar.increment()\<close>: of two attempted entries, one of them missing,
  only one is counted. \<^verbatim>\<open>bar.stop()\<close> is called once after the loop. (In general the bar
  receives one increment per completed entry and one stop.)
\<close>

theorem skipped_entry_is_not_counted:
  "snd (writeFilesWithIndex example_repo ''/repo'' [''gone.txt'', ''a.txt''] [] 1048576
      (Some \<lparr>increments = 0, stops = 0\<rparr>)) = Some \<lparr>increments = 1, stops = 1\<rparr>
   \<and> length [''gone.txt'', ''a.txt''] = 2"
  by code_simp

subsection \<open>The table of contents\<close>

text \<open>
  C8. The table of contents is the header line, one line \<^verbatim>\<open><n>. <path>\<close> per entry of the
  resolved list, numbered from 1 in the order of the list, and a blank line. The number is
  written in decimal: its text is made of digits, without a leading zero, and reads back as
  the number; a list of twelve entries shows the table as it is written. The table is a
  function of the list alone, and \<open>main\<close> writes it, whole, right after the preamble and
  before any section: whatever the file system answers later, the first two writes are the
  preamble and this table.
\<close>

theorem toc_numbers_the_resolved_list:
  "buildTableOfContents fileList =
     ''Table of Contents:'' @ [newline]
     @ concat (map (\<lambda>i. number_toString (i + 1) @ ''. '' @ fileList ! i @ [newline])
                [0..<length fileList])
     @ [newline]
   \<and> digits_value (number_toString n) = int n
   \<and> list_all is_digit (number_toString n)
   \<and> (hd (number_toString n) = CHR ''0'') = (n = 0)
   \<and> buildTableOfContents
       [''README.md'', ''package.json'', ''src/index.ts'', ''src/cli.ts'', ''tests/all.test.ts'',
        ''tsconfig.json'', ''tsup.config.ts'', ''vitest.config.ts'', ''LICENSE'', ''.gitignore'',
        ''.npmrc'', ''CHANGELOG.md''] =
       ''Table of Contents:\<newline>1. README.md\<newline>2. package.json\<newline>3. src/index.ts\<newline>4. src/cli.ts\<newline>5. tests/all.test.ts\<newline>6. tsconfig.json\<newline>7. tsup.config.ts\<newline>8. vitest.config.ts\<newline>9. LICENSE\<newline>10. .gitignore\<newline>11. .npmrc\<newline>12. CHANGELOG.md\<newline>\<newline>''
   \<and> take 2 (fst (main_write rt repoRoot preambleText fileList maxSize bar)) =
       [Text preambleText, Text (buildTableOfContents fileList)]"
proof -
  obtain ws where "fst (main_write rt repoRoot preambleText fileList maxSize bar) =
     [Text preambleText, Text (buildTableOfContents fileList)] @ ws"
    using main_write_prefix by blast
  then have written: "take 2 (fst (main_write rt repoRoot preambleText fileList maxSize bar)) =
       [Text preambleText, Text (buildTableOfContents fileList)]"
    by simp
  have twelve: "buildTableOfContents
       [''README.md'', ''package.json'', ''src/index.ts'', ''src/cli.ts'', ''tests/all.test.ts'',
        ''tsconfig.json'', ''tsup.config.ts'', ''vitest.config.ts'', ''LICENSE'', ''.gitignore'',
        ''.npmrc'', ''CHANGELOG.md''] =
       ''Table of Contents:\<newline>1. README.md\<newline>2. package.json\<newline>3. src/index.ts\<newline>4. src/cli.ts\<newline>5. tests/all.test.ts\<newline>6. tsconfig.json\<newline>7. tsup.config.ts\<newline>8. vitest.config.ts\<newline>9. LICENSE\<newline>10. .gitignore\<newline>11. .npmrc\<newline>12. CHANGELOG.md\<newline>\<newline>''"
    by code_simp
  show ?thesis
    using buildTableOfContents_lines [of fileList] number_toString_decimal [of n] written twelve
    by blast
qed

text \<open>
  C9. For an empty resolved list the document is the preamble, the header of the table of
  contents followed by the blank line, and the end marker; it has no section.
\<close>

theorem empty_set_document:
  "main_write rt repoRoot preambleText [] maxSize bar =
     ([Text preambleText, Text (''Table of Contents:'' @ [newline, newline]), EndMarker],
      bar_stop bar)
   \<and> rendered (fst (main_write rt repoRoot preambleText [] maxSize bar)) =
       preambleText @ ''Table of Contents:'' @ [newline, newline] @ ''--END--'' @ [newline]
   \<and> section_numbers (fst (main_write rt repoRoot preambleText [] maxSize bar)) = []"
  by (simp add: main_write_def writeFilesWithIndex_def write_loop.simps [of _ _ "[]"]
      buildTableOfContents_def rendered_def section_numbers_def)

subsection \<open>The bounded stream writer\<close>

text \<open>
  C2, as the code has it. The writer reads the source as UTF-8 text and writes the text
  encoded again, so the bytes it copies are the bytes of the source when these are valid
  UTF-8, that is, when decoding and encoding leave them unchanged. For such a source of \<open>S\<close>
  bytes and a ceiling \<open>C \<ge> 0\<close>, wherever the stream cuts the text into chunks: if \<open>C < S\<close>,
  the bytes written are the first \<open>C\<close> bytes of the source followed by the truncation
  marker, and the marker is the last write, so no chunk is written after it; if \<open>S \<le> C\<close>,
  the bytes written are the whole source and no truncation marker is written.
\<close>

theorem bounded_stream_writer:
  assumes "0 \<le> C"
    and "read_result (fs rt p) = Some bytes"
    and "utf8_reencode bytes = bytes"
  shows "(C < int (length bytes) \<longrightarrow>
            rendered (fst (streamFileWithLimit rt p out C)) =
              rendered out @ take (nat C) bytes @ truncation_marker
            \<and> last (fst (streamFileWithLimit rt p out C)) = TruncationMarker)
       \<and> (int (length bytes) \<le> C \<longrightarrow>
            rendered (fst (streamFileWithLimit rt p out C)) = rendered out @ bytes
            \<and> (TruncationMarker \<in> set (fst (streamFileWithLimit rt p out C)) \<longleftrightarrow>
                 TruncationMarker \<in> set out))"
proof -
  let ?s = "\<lparr>bytesWritten = 0, truncated = False, sink = out\<rparr>"
  have source: "concat (stream_chunks (fs rt p)) = bytes"
    using concat_stream_chunks [OF assms(2)] assms(3) by simp
  have pre: "\<not> truncated ?s" "0 \<le> bytesWritten ?s" "bytesWritten ?s \<le> C"
    using assms(1) by simp_all
  have cut: "truncated (fold (on_data C) (stream_chunks (fs rt p)) ?s) = (C < int (length bytes))"
    using fold_on_data_bytes [OF pre, of "stream_chunks (fs rt p)"] source by simp
  have marker: "C < int (length bytes) \<longrightarrow>
      last (fst (streamFileWithLimit rt p out C)) = TruncationMarker"
    using fold_on_data_last [of ?s C "stream_chunks (fs rt p)"] cut
    by (simp add: streamFileWithLimit_def Let_def)
  show ?thesis
    using stream_bytes [OF assms(1), of rt p out] marker unfolding source by auto
qed

theorem bounded_stream_writer_witness:
  "(0::int) \<le> 4
   \<and> read_result (fs example_repo_encodings ''/repo/cafe.txt'') =
       Some [CHR ''c'', CHR ''a'', CHR ''f'', CHR 0xC3, CHR 0xA9]
   \<and> utf8_reencode [CHR ''c'', CHR ''a'', CHR ''f'', CHR 0xC3, CHR 0xA9] =
       [CHR ''c'', CHR ''a'', CHR ''f'', CHR 0xC3, CHR 0xA9]
   \<and> rendered (fst (streamFileWithLimit example_repo_encodings ''/repo/cafe.txt'' [] 4)) =
       [CHR ''c'', CHR ''a'', CHR ''f'', CHR 0xC3] @ truncation_marker
   \<and> rendered (fst (streamFileWithLimit example_repo_encodings ''/repo/cafe.txt'' [] 5)) =
       [CHR ''c'', CHR ''a'', CHR ''f'', CHR 0xC3, CHR 0xA9]
   \<and> read_result (fs example_repo ''/repo/a.txt'') = Some ''hello world''
   \<and> utf8_reencode ''hello world'' = ''hello world''
   \<and> rendered (fst (streamFileWithLimit example_repo ''/repo/a.txt'' [] 8)) =
       ''hello wo'' @ truncation_marker
   \<and> rendered (fst (streamFileWithLimit example_repo ''/repo/a.txt'' [] 11)) = ''hello world''"
proof -
  have cafe: "read_result (fs example_repo_encodings ''/repo/cafe.txt'') =
      Some [CHR ''c'', CHR ''a'', CHR ''f'', CHR 0xC3, CHR 0xA9]"
    by code_simp
  have cafe_valid: "utf8_reencode [CHR ''c'', CHR ''a'', CHR ''f'', CHR 0xC3, CHR 0xA9] =
      [CHR ''c'', CHR ''a'', CHR ''f'', CHR 0xC3, CHR 0xA9]"
    by code_simp
  have hello: "read_result (fs example_repo ''/repo/a.txt'') = Some ''hello world''"
    by code_simp
  have hello_valid: "utf8_reencode ''hello world'' = ''hello world''"
    by code_simp
  have none: "rendered [] = []"
    by (simp add: rendered_def)
  have c4: "(0::int) \<le> 4" and c5: "(0::int) \<le> 5" and c8: "(0::int) \<le> 8"
    and c11: "(0::int) \<le> 11"
    by simp_all
  show ?thesis
    using bounded_stream_writer [OF c4 cafe cafe_valid, of "[]"]
      bounded_stream_writer [OF c5 cafe cafe_valid, of "[]"]
      bounded_stream_writer [OF c8 hello hello_valid, of "[]"]
      bounded_stream_writer [OF c11 hello hello_valid, of "[]"]
      cafe cafe_valid hello hello_valid
    unfolding none by simp
qed

text \<open>
  The claim C2 as it is stated, for every source file and every ceiling, fails. The three
  bytes \<^verbatim>\<open>FF 61 62\<close> are not valid UTF-8: the stream delivers them as five bytes, and with
  the ceiling 3, which the size of the file does not exceed, the writer writes
  \<^verbatim>\<open>EF BF BD\<close> and the truncation marker instead of the file. A negative ceiling, which
  \<^verbatim>\<open>--max-size -3\<close> gives, is not a byte count either: the first chunk already exceeds it,
  and \<^verbatim>\<open>chunkBuffer.slice(0, -3)\<close> is the chunk without its last three bytes, so two bytes of
  the source are written before the marker.
\<close>

theorem source_bytes_are_not_always_copied:
  "read_result (fs example_repo_encodings ''/repo/latin1.txt'') =
       Some [CHR 0xFF, CHR ''a'', CHR ''b'']
   \<and> int (length [CHR 0xFF, CHR ''a'', CHR ''b'']) \<le> 3
   \<and> rendered (fst (streamFileWithLimit example_repo_encodings ''/repo/latin1.txt'' [] 3)) =
       [CHR 0xEF, CHR 0xBF, CHR 0xBD] @ truncation_marker
   \<and> rendered (fst (streamFileWithLimit example_repo_encodings ''/repo/latin1.txt'' [] 3)) \<noteq>
       [CHR 0xFF, CHR ''a'', CHR ''b'']
   \<and> main_maxSize (Some ''-3'') = - 3
   \<and> read_result (fs example_repo ''/repo/a.txt'') = Some ''hello world''
   \<and> - 3 < int (length ''hello world'')
   \<and> rendered (fst (streamFileWithLimit example_repo ''/repo/a.txt'' [] (- 3))) =
       ''he'' @ truncation_marker
   \<and> rendered (fst (streamFileWithLimit example_repo ''/repo/a.txt'' [] (- 3))) \<noteq>
       take (nat (- 3)) ''hello world'' @ truncation_marker"
  by code_simp

subsection \<open>The binary classifier\<close>

text \<open>
  C7. When the lower-cased extension is \<^verbatim>\<open>.bin\<close> the result is true whatever the file
  system holds: the file is not read. Otherwise, when the file can be opened and read, the
  result is true exactly when one of the first 512 bytes (all the bytes of a shorter file)
  is the null byte; and when it cannot be opened or read, the result is false. The function
  has a result in every case: no error leaves it.
\<close>

theorem binary_classifier:
  "(toLowerCase (path_extname rt filePath) = ''.bin'' \<longrightarrow>
      (\<forall>files. isBinaryFile (rt\<lparr>fs := files\<rparr>) filePath))
   \<and> (toLowerCase (path_extname rt filePath) \<noteq> ''.bin'' \<longrightarrow>
        (\<forall>bytes. read_result (fs rt filePath) = Some bytes \<longrightarrow>
           isBinaryFile rt filePath = (CHR 0x00 \<in> set (take 512 bytes)))
        \<and> (read_result (fs rt filePath) = None \<longrightarrow> \<not> isBinaryFile rt filePath))"
  by (simp add: isBinaryFile_def scan_of_fd_read)

theorem binary_classifier_witness:
  "toLowerCase (path_extname example_repo ''/repo/data.BIN'') = ''.bin''
   \<and> isBinaryFile (example_repo\<lparr>fs := \<lambda>p. missing_file\<rparr>) ''/repo/data.BIN''
   \<and> toLowerCase (path_extname example_repo ''/repo/weird.txt'') \<noteq> ''.bin''
   \<and> read_result (fs example_repo ''/repo/weird.txt'') = Some [CHR ''A'', CHR 0x00, CHR ''B'']
   \<and> isBinaryFile example_repo ''/repo/weird.txt''
   \<and> toLowerCase (path_extname example_repo ''/repo/gone.txt'') \<noteq> ''.bin''
   \<and> read_result (fs example_repo ''/repo/gone.txt'') = None
   \<and> \<not> isBinaryFile example_repo ''/repo/gone.txt''"
proof -
  have bin: "toLowerCase (path_extname example_repo ''/repo/data.BIN'') = ''.bin''"
    by code_simp
  have weird: "toLowerCase (path_extname example_repo ''/repo/weird.txt'') \<noteq> ''.bin''"
    "read_result (fs example_repo ''/repo/weird.txt'') = Some [CHR ''A'', CHR 0x00, CHR ''B'']"
    by code_simp+
  have gone: "toLowerCase (path_extname example_repo ''/repo/gone.txt'') \<noteq> ''.bin''"
    "read_result (fs example_repo ''/repo/gone.txt'') = None"
    by code_simp+
  show ?thesis
    using binary_classifier [of example_repo "''/repo/data.BIN''"]
      binary_classifier [of example_repo "''/repo/weird.txt''"]
      binary_classifier [of example_repo "''/repo/gone.txt''"]
      bin weird gone
    by simp
qed

subsection \<open>The pattern loader\<close>

text \<open>
  C6. When the ignore file can be read, the re-include sequence is made of exactly the lines
  whose trimmed text begins with \<^verbatim>\<open>!\<close>, in order, each trimmed, with its separators
  normalized and the marker dropped; the exclude sequence is made of exactly the lines whose
  trimmed text is not empty and begins neither with \<^verbatim>\<open>#\<close> nor with \<^verbatim>\<open>!\<close>. So a line that
  is blank after trimming, or whose trimmed text begins with \<^verbatim>\<open>#\<close>, is in neither sequence;
  and a line that begins with \<^verbatim>\<open>#\<close> still begins with it after trimming.
\<close>

theorem ignore_spec_split:
  assumes "read_result (fs rt ignoreFilePath) = Some raw"
  shows "\<exists>patterns. getIgnoreList rt ignoreFilePath = Some patterns
     \<and> negativePatterns patterns =
         map (\<lambda>l. drop 1 (normalize_separators rt (trim l)))
           (filter (\<lambda>l. startsWith (trim l) (CHR ''!'')) (split_lines raw))
     \<and> positivePatterns patterns =
         map (\<lambda>l. normalize_separators rt (trim l))
           (filter (\<lambda>l. trim l \<noteq> [] \<and> \<not> startsWith (trim l) (CHR ''#'')
                        \<and> \<not> startsWith (trim l) (CHR ''!'')) (split_lines raw))
     \<and> (\<forall>l. startsWith l (CHR ''#'') \<longrightarrow> startsWith (trim l) (CHR ''#''))"
proof -
  let ?keep = "\<lambda>l. trim l \<noteq> [] \<and> \<not> startsWith (trim l) (CHR ''#'')"
  let ?norm = "\<lambda>l. normalize_separators rt (trim l)"
  let ?patterns = "map ?norm (filter ?keep (split_lines raw))"
  have loaded: "getIgnoreList rt ignoreFilePath = Some ?patterns"
    using assms by (simp add: getIgnoreList_def ignore_loop_append)
  have bang: "startsWith (?norm l) (CHR ''!'') = startsWith (trim l) (CHR ''!'')" for l
    by (simp add: startsWith_normalize)
  have marked: "(?keep l \<and> startsWith (trim l) (CHR ''!'')) = startsWith (trim l) (CHR ''!'')" for l
    using startsWith_nonempty [of "trim l" "CHR ''!''"] startsWith_unique [of "trim l" "CHR ''!''" "CHR ''#''"]
    by auto
  have neg_pred: "(\<lambda>l. ?keep l \<and> startsWith (?norm l) (CHR ''!'')) =
      (\<lambda>l. startsWith (trim l) (CHR ''!''))"
    using bang marked by auto
  have pos_pred: "(\<lambda>l. ?keep l \<and> \<not> startsWith (?norm l) (CHR ''!'')) =
      (\<lambda>l. trim l \<noteq> [] \<and> \<not> startsWith (trim l) (CHR ''#'')
            \<and> \<not> startsWith (trim l) (CHR ''!''))"
    using bang by auto
  have "negativePatterns ?patterns =
      map (\<lambda>l. drop 1 (?norm l))
        (filter (\<lambda>l. ?keep l \<and> startsWith (?norm l) (CHR ''!'')) (split_lines raw))"
    by (simp only: negativePatterns_def filter_map filter_filter map_map comp_def)
  then have neg: "negativePatterns ?patterns =
      map (\<lambda>l. drop 1 (?norm l)) (filter (\<lambda>l. startsWith (trim l) (CHR ''!'')) (split_lines raw))"
    by (simp only: neg_pred)
  have "positivePatterns ?patterns =
      map ?norm (filter (\<lambda>l. ?keep l \<and> \<not> startsWith (?norm l) (CHR ''!'')) (split_lines raw))"
    by (simp only: positivePatterns_def filter_map filter_filter map_map comp_def)
  then have pos: "positivePatterns ?patterns =
      map ?norm (filter (\<lambda>l. trim l \<noteq> [] \<and> \<not> startsWith (trim l) (CHR ''#'')
                       \<and> \<not> startsWith (trim l) (CHR ''!'')) (split_lines raw))"
    by (simp only: pos_pred)
  have hash: "\<forall>l. startsWith l (CHR ''#'') \<longrightarrow> startsWith (trim l) (CHR ''#'')"
    using trim_keeps_first [of _ "CHR ''#''"] by (simp add: is_space_def)
  from loaded neg pos hash show ?thesis
    by (intro exI [of _ ?patterns] conjI)
qed

theorem ignore_spec_split_witness:
  "read_result (fs example_repo ''/repo/.repo2promptignore'') = Some example_ignore_text
   \<and> split_lines example_ignore_text =
       [''# build output'', ''*.md'', [], ''  !notes.md  '', ''#!x'', ''*.log'']
   \<and> getIgnoreList example_repo ''/repo/.repo2promptignore'' =
       Some [''*.md'', ''!notes.md'', ''*.log'']
   \<and> negativePatterns [''*.md'', ''!notes.md'', ''*.log''] = [''notes.md'']
   \<and> positivePatterns [''*.md'', ''!notes.md'', ''*.log''] = [''*.md'', ''*.log'']"
proof -
  have readable: "read_result (fs example_repo ''/repo/.repo2promptignore'') = Some example_ignore_text"
    by code_simp
  have lines: "split_lines example_ignore_text =
      [''# build output'', ''*.md'', [], ''  !notes.md  '', ''#!x'', ''*.log'']"
    by code_simp
  have loaded: "getIgnoreList example_repo ''/repo/.repo2promptignore'' =
      Some [''*.md'', ''!notes.md'', ''*.log'']"
    by code_simp
  have neg: "map (\<lambda>l. drop 1 (normalize_separators example_repo (trim l)))
      (filter (\<lambda>l. startsWith (trim l) (CHR ''!''))
        [''# build output'', ''*.md'', [], ''  !notes.md  '', ''#!x'', ''*.log'']) = [''notes.md'']"
    by code_simp
  have pos: "map (\<lambda>l. normalize_separators example_repo (trim l))
      (filter (\<lambda>l. trim l \<noteq> [] \<and> \<not> startsWith (trim l) (CHR ''#'')
                   \<and> \<not> startsWith (trim l) (CHR ''!''))
        [''# build output'', ''*.md'', [], ''  !notes.md  '', ''#!x'', ''*.log'']) =
      [''*.md'', ''*.log'']"
    by code_simp
  show ?thesis
    using ignore_spec_split [OF readable] readable lines loaded neg pos
    by auto
qed

subsection \<open>The file-set resolver\<close>

text \<open>
  C3, as the code has it. A file that the scan of the tree lists, that no exclude pattern
  of the ignore file matches, and that is not reserved, is in the resolved set; the
  resolution fails (the process exits with code 1) only when the glob library throws on one
  of the \<open>ignore\<close> patterns. The
  reserved paths are those matched by \<^verbatim>\<open>.git/**\<close>, \<^verbatim>\<open>node_modules/**\<close>, the ignore file name, the
  output file name or the preamble file (all given to the scan as \<open>ignore\<close> patterns), and
  the three names themselves, which are deleted from the merged set.
\<close>

theorem unexcluded_file_is_resolved:
  assumes "scanned rt f"
    and "\<not> list_ex (\<lambda>p. minimatch rt p f) (positivePatterns ignorePatterns)"
    and "\<not> reserved rt ignoreFileName outputFileName preambleFile f"
  shows "case main_resolve rt ignorePatterns ignoreFileName outputFileName preambleFile of
           Inr resolved \<Rightarrow> f \<in> set resolved
         | Inl exit \<Rightarrow> exit = ProcessExit 1 \<and>
             list_ex (glob_rejects rt)
               (ignoreGlobs ignorePatterns ignoreFileName outputFileName preambleFile)"
proof (cases "main_resolve rt ignorePatterns ignoreFileName outputFileName preambleFile")
  case (Inl exit)
  have "\<not> glob_rejects rt ''**/*''"
    using assms(1) by (auto simp: scanned_def glob_def split: if_splits)
  then show ?thesis
    using main_resolve_exit [OF Inl] Inl by simp
next
  case (Inr resolved)
  obtain allFiles where
    scan: "glob rt ''**/*'' (ignoreGlobs ignorePatterns ignoreFileName outputFileName preambleFile) = Some allFiles"
    and members: "set resolved =
         (set allFiles \<union> set (reinclude_loop rt (negativePatterns ignorePatterns) []))
         - {ignoreFileName} - {outputFileName}
         - (case preambleFile of None \<Rightarrow> {} | Some p \<Rightarrow> if p = [] then {} else {p})"
    using main_resolve_members [OF Inr] by blast
  have present: "f \<in> set (tree rt)" "minimatch rt ''**/*'' f"
    using assms(1) by (auto simp: scanned_def glob_def split: if_splits)
  have unmatched: "\<not> list_ex (\<lambda>g. minimatch rt g f)
      (ignoreGlobs ignorePatterns ignoreFileName outputFileName preambleFile)"
    using assms(2,3) list_ex_ignoreGlobs [of "\<lambda>g. minimatch rt g f"]
    by (auto simp: reserved_def)
  have "f \<in> set allFiles"
    using scan present unmatched by (auto simp: glob_def split: if_splits)
  moreover have "f \<noteq> ignoreFileName" "f \<noteq> outputFileName" "preambleFile \<noteq> Some f"
    using assms(3) by (auto simp: reserved_def)
  ultimately have "f \<in> set resolved"
    unfolding members by (auto split: option.splits if_splits)
  then show ?thesis
    using Inr by simp
qed

theorem unexcluded_file_is_resolved_witness:
  "scanned example_repo ''a.txt''
   \<and> \<not> list_ex (\<lambda>p. minimatch example_repo p ''a.txt'')
         (positivePatterns [''*.md'', ''!notes.md'', ''*.log''])
   \<and> \<not> reserved example_repo ''.repo2promptignore'' ''output.txt'' None ''a.txt''
   \<and> main_resolve example_repo [''*.md'', ''!notes.md'', ''*.log''] ''.repo2promptignore''
      ''output.txt'' None = Inr [''a.txt'', ''image.bin'', ''data.BIN'', ''weird.txt'', ''notes.md'']
   \<and> ''a.txt'' \<in> set [''a.txt'', ''image.bin'', ''data.BIN'', ''weird.txt'', ''notes.md'']"
proof -
  have resolved: "main_resolve example_repo [''*.md'', ''!notes.md'', ''*.log'']
      ''.repo2promptignore'' ''output.txt'' None =
      Inr [''a.txt'', ''image.bin'', ''data.BIN'', ''weird.txt'', ''notes.md'']"
    by code_simp
  have present: "scanned example_repo ''a.txt''"
    by code_simp
  have unmatched: "\<not> list_ex (\<lambda>p. minimatch example_repo p ''a.txt'')
      (positivePatterns [''*.md'', ''!notes.md'', ''*.log''])"
    by code_simp
  have free: "\<not> reserved example_repo ''.repo2promptignore'' ''output.txt'' None ''a.txt''"
    by code_simp
  have "''a.txt'' \<in> set [''a.txt'', ''image.bin'', ''data.BIN'', ''weird.txt'', ''notes.md'']"
    using unexcluded_file_is_resolved [OF present unmatched free] resolved
    by (simp del: set_simps)
  then show ?thesis
    using resolved present unmatched free by simp
qed

text \<open>
  The claim C3 as it is stated fails: with no exclude pattern at all, the scan lists the
  dependency \<^verbatim>\<open>node_modules/x.js\<close> and the output file \<^verbatim>\<open>output.txt\<close>, and neither is in the
  resolved set.
\<close>

theorem reserved_files_are_not_resolved:
  "scanned example_repo ''node_modules/x.js''
   \<and> scanned example_repo ''output.txt''
   \<and> positivePatterns [] = []
   \<and> main_resolve example_repo [] ''.repo2promptignore'' ''output.txt'' None =
       Inr [''a.txt'', ''image.bin'', ''notes.md'', ''data.BIN'', ''weird.txt'']
   \<and> ''node_modules/x.js'' \<notin> set [''a.txt'', ''image.bin'', ''notes.md'', ''data.BIN'', ''weird.txt'']
   \<and> ''output.txt'' \<notin> set [''a.txt'', ''image.bin'', ''notes.md'', ''data.BIN'', ''weird.txt'']"
  by code_simp

text \<open>
  C5, as the code has it. A file that \<^verbatim>\<open>glob\<close> returns for a re-include pattern is in the
  resolved set, whatever the exclude patterns match (the re-include patterns are matched
  against the whole tree, with no \<open>ignore\<close> list, and their matches are added to the files
  that survived the exclusion), unless its path is the ignore file name, the output file
  name or the preamble file: these three are deleted from the merged set afterwards. The
  resolution fails only when the glob library throws in the first scan.
\<close>

theorem reincluded_file_is_resolved:
  assumes "pat \<in> set (negativePatterns ignorePatterns)"
    and "glob rt pat [] = Some matches"
    and "f \<in> set matches"
    and "f \<noteq> ignoreFileName" "f \<noteq> outputFileName" "preambleFile \<noteq> Some f"
  shows "case main_resolve rt ignorePatterns ignoreFileName outputFileName preambleFile of
           Inr resolved \<Rightarrow> f \<in> set resolved
         | Inl exit \<Rightarrow> exit = ProcessExit 1 \<and>
             (glob_rejects rt ''**/*'' \<or>
              list_ex (glob_rejects rt)
                (ignoreGlobs ignorePatterns ignoreFileName outputFileName preambleFile))"
proof (cases "main_resolve rt ignorePatterns ignoreFileName outputFileName preambleFile")
  case (Inl exit)
  then show ?thesis
    using main_resolve_exit [OF Inl] by simp
next
  case (Inr resolved)
  obtain allFiles where
    members: "set resolved =
         (set allFiles \<union> set (reinclude_loop rt (negativePatterns ignorePatterns) []))
         - {ignoreFileName} - {outputFileName}
         - (case preambleFile of None \<Rightarrow> {} | Some p \<Rightarrow> if p = [] then {} else {p})"
    using main_resolve_members [OF Inr] by blast
  have "f \<in> set (reinclude_loop rt (negativePatterns ignorePatterns) [])"
    using reinclude_loop_matches [OF assms(1,2)] assms(3) by blast
  then have "f \<in> set resolved"
    unfolding members using assms(4-6) by (auto split: option.splits if_splits)
  then show ?thesis
    using Inr by simp
qed

theorem reincluded_file_is_resolved_witness:
  "minimatch example_repo ''*.md'' ''notes.md''
   \<and> ''notes.md'' \<in> set (negativePatterns [''*.md'', ''!notes.md'', ''*.log''])
   \<and> glob example_repo ''notes.md'' [] = Some [''notes.md'']
   \<and> main_resolve example_repo [''*.md'', ''!notes.md'', ''*.log''] ''.repo2promptignore''
      ''output.txt'' None = Inr [''a.txt'', ''image.bin'', ''data.BIN'', ''weird.txt'', ''notes.md'']
   \<and> ''notes.md'' \<in> set [''a.txt'', ''image.bin'', ''data.BIN'', ''weird.txt'', ''notes.md'']"
proof -
  have resolved: "main_resolve example_repo [''*.md'', ''!notes.md'', ''*.log'']
      ''.repo2promptignore'' ''output.txt'' None =
      Inr [''a.txt'', ''image.bin'', ''data.BIN'', ''weird.txt'', ''notes.md'']"
    by code_simp
  have excluded: "minimatch example_repo ''*.md'' ''notes.md''"
    by code_simp
  have negative: "''notes.md'' \<in> set (negativePatterns [''*.md'', ''!notes.md'', ''*.log''])"
    by code_simp
  have matched: "glob example_repo ''notes.md'' [] = Some [''notes.md'']"
    by code_simp
  have member: "''notes.md'' \<in> set [''notes.md'']"
    by simp
  have "''notes.md'' \<in> set [''a.txt'', ''image.bin'', ''data.BIN'', ''weird.txt'', ''notes.md'']"
    using reincluded_file_is_resolved [OF negative matched member, of
        "''.repo2promptignore''" "''output.txt''" None] resolved
    by (simp del: set_simps)
  then show ?thesis
    using resolved excluded negative matched by simp
qed

text \<open>
  The claim C5 as it is stated fails for the output file: \<^verbatim>\<open>output.txt\<close> matches the exclude
  pattern \<^verbatim>\<open>*.txt\<close> and the re-include pattern \<^verbatim>\<open>output.txt\<close>, and it is not in the resolved
  set.
\<close>

theorem reincluded_output_file_is_deleted:
  "minimatch example_repo ''*.txt'' ''output.txt''
   \<and> negativePatterns [''*.txt'', ''!output.txt''] = [''output.txt'']
   \<and> glob example_repo ''output.txt'' [] = Some [''output.txt'']
   \<and> main_resolve example_repo [''*.txt'', ''!output.txt''] ''.repo2promptignore''
        ''output.txt'' None = Inr [''image.bin'', ''notes.md'', ''data.BIN'']
   \<and> ''output.txt'' \<notin> set [''image.bin'', ''notes.md'', ''data.BIN'']"
  by code_simp

subsection \<open>The size ceiling\<close>

text \<open>
  C10. When the option is absent, when its text does not parse as an integer, and when
  it parses to 0, the ceiling is 1048576. In particular \<^verbatim>\<open>--max-size 0\<close> gives the ceiling
  1048576: a text file of at most 1048576 bytes is then written whole, and a longer one is
  cut after 1048576 bytes, not after 0.
\<close>

theorem max_size_fallback:
  "main_maxSize None = 1048576
   \<and> (parseInt10 s = None \<longrightarrow> main_maxSize (Some s) = 1048576)
   \<and> (parseInt10 s = Some 0 \<longrightarrow> main_maxSize (Some s) = 1048576)
   \<and> main_maxSize (Some ''0'') = 1048576
   \<and> (int (length (concat (stream_chunks (fs rt p)))) \<le> 1048576 \<longrightarrow>
        rendered (fst (streamFileWithLimit rt p out (main_maxSize (Some ''0'')))) =
          rendered out @ concat (stream_chunks (fs rt p)))
   \<and> (1048576 < int (length (concat (stream_chunks (fs rt p)))) \<longrightarrow>
        rendered (fst (streamFileWithLimit rt p out (main_maxSize (Some ''0'')))) =
          rendered out @ take 1048576 (concat (stream_chunks (fs rt p))) @ truncation_marker)"
proof -
  have zero: "main_maxSize (Some ''0'') = 1048576"
    by code_simp
  have ceiling: "(0::int) \<le> 1048576"
    by simp
  show ?thesis
    using main_maxSize_fallback stream_bytes(1) [OF ceiling, of rt p out]
    by (simp add: zero)
qed

theorem max_size_fallback_witness:
  "parseInt10 ''abc'' = None \<and> main_maxSize (Some ''abc'') = 1048576
   \<and> parseInt10 ''0'' = Some 0 \<and> main_maxSize (Some ''0'') = 1048576
   \<and> int (length (concat (stream_chunks (fs example_repo ''/repo/a.txt'')))) \<le> 1048576
   \<and> rendered (fst (streamFileWithLimit example_repo ''/repo/a.txt'' []
        (main_maxSize (Some ''0'')))) = ''hello world''"
proof -
  have nan: "parseInt10 ''abc'' = None" and zero: "parseInt10 ''0'' = Some 0"
    by code_simp+
  have content: "concat (stream_chunks (fs example_repo ''/repo/a.txt'')) = ''hello world''"
    by code_simp
  have none: "rendered [] = []"
    by (simp add: rendered_def)
  show ?thesis
    using max_size_fallback [of "''abc''" example_repo "''/repo/a.txt''" "[]"]
      max_size_fallback [of "''0''" example_repo "''/repo/a.txt''" "[]"]
      nan zero
    unfolding content none by simp
qed

end
